theory Spec2Isabelle
  imports Complex_Main "HOL-Library.Word" "HOL-Library.AList"
begin

unbundle bit_operations_syntax

section \<open>Constants (src/lib/constants.ts)\<close>

definition METADATA_SUFFIX :: string where
  "METADATA_SUFFIX = ''.__meta__''"

definition CHUNK_SUFFIX :: string where
  "CHUNK_SUFFIX = ''.chunk''"

definition MAX_CHUNK_SIZE :: nat where
  "MAX_CHUNK_SIZE = 3000"

definition DEFAULT_DIR_MODE :: int where
  "DEFAULT_DIR_MODE = 16877"

definition DEFAULT_FILE_MODE :: int where
  "DEFAULT_FILE_MODE = 33188"

text \<open>The file type mask and the directory bit of src/lib/posix.ts, written in the routes
  as the octal literals 0o170000 and 0o040000.\<close>

definition S_IFMT :: int where
  "S_IFMT = 61440"

definition S_IFDIR :: int where
  "S_IFDIR = 16384"

section \<open>Data\<close>

text \<open>Bytes of a Node Buffer, and JavaScript strings as lists of UTF-16 code units (what
  \<open>length\<close> and \<open>substring\<close> count). Paths and store keys are strings that the routes only
  concatenate and compare, so they are kept as HOL strings.\<close>

type_synonym byte = "8 word"
type_synonym js_string = "16 word list"

text \<open>The interface Metadata of the routes; \<open>num_chunks\<close> is optional.\<close>

record Metadata =
  mode :: int
  uid :: int
  gid :: int
  size_bytes :: int
  atime :: int
  mtime :: int
  ctime :: int
  num_chunks :: "int option"

text \<open>A value of the store is a text. \<open>JSON.parse\<close> and \<open>JSON.stringify\<close> belong to the
  platform: the JSON text of a complete Metadata object (every field an integer, \<open>num_chunks\<close>
  optional) is kept parsed (\<open>MetaRecord\<close>), any other text is \<open>Text\<close>. What a \<open>Text\<close> gives when
  a route parses it as metadata is \<open>parse_other_text\<close> below.\<close>

datatype kv_value = MetaRecord Metadata | Text js_string

type_synonym kv = "(string \<times> kv_value) list"

section \<open>Platform functions: decimal numbers, JSON text, Buffer, String\<close>

definition digit_char :: "nat \<Rightarrow> char" where
  "digit_char d = ''0123456789'' ! d"

function decimal :: "nat \<Rightarrow> string" where
  "decimal n = (if n < 10 then [digit_char n] else decimal (n div 10) @ [digit_char (n mod 10)])"
  by pat_completeness auto
termination
  by (relation "measure (\<lambda>n. n)") auto

declare decimal.simps [simp del]

definition number_text :: "int \<Rightarrow> string" where
  "number_text i = (if i < 0 then CHR ''-'' # decimal (nat (- i)) else decimal (nat i))"

definition js_of_string :: "string \<Rightarrow> js_string" where
  "js_of_string s = map (\<lambda>c. of_nat (of_char c)) s"

definition json_field :: "string \<Rightarrow> int \<Rightarrow> string" where
  "json_field name v = [CHR 0x22] @ name @ [CHR 0x22] @ '':'' @ number_text v"

definition JSON_stringify :: "Metadata \<Rightarrow> js_string" where
  "JSON_stringify m = js_of_string (''{'' @
     json_field ''mode'' (mode m) @ '','' @ json_field ''uid'' (uid m) @ '','' @
     json_field ''gid'' (gid m) @ '','' @ json_field ''size'' (size_bytes m) @ '','' @
     json_field ''atime'' (atime m) @ '','' @ json_field ''mtime'' (mtime m) @ '','' @
     json_field ''ctime'' (ctime m) @
     (case num_chunks m of None \<Rightarrow> [] | Some n \<Rightarrow> '','' @ json_field ''num_chunks'' n) @ ''}'')"

text \<open>The text of a stored value, as the \<open>value\<close> field of the store's answer.\<close>

fun value_text :: "kv_value \<Rightarrow> js_string" where
  "value_text (Text s) = s"
| "value_text (MetaRecord m) = JSON_stringify m"

text \<open>UTF-16 code units of a code point, and UTF-8 bytes of a code point.\<close>

definition utf16_units :: "nat \<Rightarrow> js_string" where
  "utf16_units cp =
     (if cp < 0x10000 then [of_nat cp]
      else [of_nat (0xD800 + (cp - 0x10000) div 1024), of_nat (0xDC00 + (cp - 0x10000) mod 1024)])"

definition utf8_bytes :: "nat \<Rightarrow> byte list" where
  "utf8_bytes cp =
     (if cp < 0x80 then [of_nat cp]
      else if cp < 0x800 then [of_nat (0xC0 + cp div 64), of_nat (0x80 + cp mod 64)]
      else if cp < 0x10000 then
        [of_nat (0xE0 + cp div 4096), of_nat (0x80 + (cp div 64) mod 64), of_nat (0x80 + cp mod 64)]
      else
        [of_nat (0xF0 + cp div 262144), of_nat (0x80 + (cp div 4096) mod 64),
         of_nat (0x80 + (cp div 64) mod 64), of_nat (0x80 + cp mod 64)])"

text \<open>\<open>buf.toString('utf8')\<close>: the UTF-8 decoder, which gives U+FFFD for every ill-formed
  sequence. The state holds the continuation bytes still needed, the code point so far and
  the bounds of the next byte.\<close>

datatype utf8_state = Start | Cont nat nat nat nat

definition utf8_start :: "byte \<Rightarrow> js_string \<times> utf8_state" where
  "utf8_start b =
     (let n = unat b in
      if n \<le> 0x7F then ([ucast b], Start)
      else if 0xC2 \<le> n \<and> n \<le> 0xDF then ([], Cont 1 (n mod 32) 0x80 0xBF)
      else if 0xE0 \<le> n \<and> n \<le> 0xEF then
        ([], Cont 2 (n mod 16) (if n = 0xE0 then 0xA0 else 0x80) (if n = 0xED then 0x9F else 0xBF))
      else if 0xF0 \<le> n \<and> n \<le> 0xF4 then
        ([], Cont 3 (n mod 8) (if n = 0xF0 then 0x90 else 0x80) (if n = 0xF4 then 0x8F else 0xBF))
      else ([0xFFFD], Start))"

fun utf8_step :: "utf8_state \<Rightarrow> byte \<Rightarrow> js_string \<times> utf8_state" where
  "utf8_step Start b = utf8_start b"
| "utf8_step (Cont r cp lo hi) b =
     (let n = unat b in
      if n < lo \<or> hi < n then (case utf8_start b of (out, st) \<Rightarrow> (0xFFFD # out, st))
      else if r \<le> 1 then (utf16_units (cp * 64 + n mod 64), Start)
      else ([], Cont (r - 1) (cp * 64 + n mod 64) 0x80 0xBF))"

fun utf8_run :: "utf8_state \<Rightarrow> byte list \<Rightarrow> js_string" where
  "utf8_run Start [] = []"
| "utf8_run (Cont r cp lo hi) [] = [0xFFFD]"
| "utf8_run st (b # bs) = (case utf8_step st b of (out, st') \<Rightarrow> out @ utf8_run st' bs)"

definition Buffer_toString_utf8 :: "byte list \<Rightarrow> js_string" where
  "Buffer_toString_utf8 bs = utf8_run Start bs"

text \<open>\<open>Buffer.from(str, 'utf8')\<close>, and the body of \<open>new Response(str)\<close>: the UTF-8 encoding
  of a string; a surrogate pair is one code point, a lone surrogate becomes U+FFFD.\<close>

fun utf8_encode :: "js_string \<Rightarrow> byte list" where
  "utf8_encode [] = []"
| "utf8_encode [u] =
     (if 0xD800 \<le> unat u \<and> unat u \<le> 0xDFFF then utf8_bytes 0xFFFD else utf8_bytes (unat u))"
| "utf8_encode (u # v # vs) =
     (if 0xD800 \<le> unat u \<and> unat u \<le> 0xDBFF then
        (if 0xDC00 \<le> unat v \<and> unat v \<le> 0xDFFF
         then utf8_bytes (0x10000 + (unat u - 0xD800) * 1024 + (unat v - 0xDC00)) @ utf8_encode vs
         else utf8_bytes 0xFFFD @ utf8_encode (v # vs))
      else if 0xDC00 \<le> unat u \<and> unat u \<le> 0xDFFF then utf8_bytes 0xFFFD @ utf8_encode (v # vs)
      else utf8_bytes (unat u) @ utf8_encode (v # vs))"

definition Buffer_from_utf8 :: "js_string \<Rightarrow> byte list" where
  "Buffer_from_utf8 s = utf8_encode s"

text \<open>\<open>Buffer.from(str, 'base64')\<close> on base64 text: the characters of the alphabet (the
  URL-safe one too) up to the first padding character, six bits each.\<close>

definition base64_value :: "char \<Rightarrow> nat option" where
  "base64_value c =
     (let n = (of_char c :: nat) in
      if 65 \<le> n \<and> n \<le> 90 then Some (n - 65)
      else if 97 \<le> n \<and> n \<le> 122 then Some (n - 71)
      else if 48 \<le> n \<and> n \<le> 57 then Some (n + 4)
      else if c = CHR ''+'' \<or> c = CHR ''-'' then Some 62
      else if c = CHR ''/'' \<or> c = CHR ''_'' then Some 63
      else None)"

fun base64_groups :: "nat list \<Rightarrow> byte list" where
  "base64_groups (a # b # c # d # rest) =
     [of_nat (a * 4 + b div 16), of_nat ((b mod 16) * 16 + c div 4), of_nat ((c mod 4) * 64 + d)]
       @ base64_groups rest"
| "base64_groups [a, b, c] = [of_nat (a * 4 + b div 16), of_nat ((b mod 16) * 16 + c div 4)]"
| "base64_groups [a, b] = [of_nat (a * 4 + b div 16)]"
| "base64_groups _ = []"

definition Buffer_from_base64 :: "string \<Rightarrow> byte list" where
  "Buffer_from_base64 s =
     base64_groups (List.map_filter base64_value (takeWhile (\<lambda>c. c \<noteq> CHR ''='') s))"

text \<open>\<open>Buffer.alloc(n)\<close> is zero-filled. \<open>source.copy(target, targetStart, sourceStart,
  sourceEnd)\<close> throws a RangeError (\<open>None\<close>) when sourceStart is beyond the source, copies
  nothing when targetStart is beyond the target or the range is empty, and otherwise copies
  as many bytes as the source has and the target holds.\<close>

definition Buffer_alloc :: "nat \<Rightarrow> byte list" where
  "Buffer_alloc n = replicate n 0"

definition Buffer_copy :: "byte list \<Rightarrow> byte list \<Rightarrow> nat \<Rightarrow> nat \<Rightarrow> nat \<Rightarrow> byte list option" where
  "Buffer_copy source target targetStart sourceStart sourceEnd =
     (if sourceStart > length source then None
      else if targetStart \<ge> length target \<or> sourceStart \<ge> sourceEnd then Some target
      else
        (let nb = min (min (sourceEnd - sourceStart) (length target - targetStart))
                      (length source - sourceStart)
         in Some (take targetStart target @ take nb (drop sourceStart source)
                    @ drop (targetStart + nb) target)))"

text \<open>\<open>str.substring(a, b)\<close> on indices that are not negative.\<close>

definition substring :: "'a list \<Rightarrow> nat \<Rightarrow> nat \<Rightarrow> 'a list" where
  "substring s a b =
     (let a' = min a (length s); b' = min b (length s)
      in take (max a' b' - min a' b') (drop (min a' b') s))"

definition endsWith :: "string \<Rightarrow> string \<Rightarrow> bool" where
  "endsWith s t = (length t \<le> length s \<and> drop (length s - length t) s = t)"

definition startsWith :: "string \<Rightarrow> string \<Rightarrow> bool" where
  "startsWith s t = (take (length t) s = t)"

section \<open>The key-value service\<close>

text \<open>The service is outside the repository. It is taken as the spec describes its
  interface: get, upsert and delete of one key, and a listing of the stored keys that start
  with a prefix, served in pages with a marker for the next page. A missing key is answered
  with status 404. The keys are enumerated in the order of the association list. Any call
  may fail: \<open>fault\<close> gives the status of a call the service does not answer normally.\<close>

datatype api_call =
  GetRecord string | PostRecord string | DeleteRecord string | ListKeys string "nat option"

record env =
  fault :: "api_call \<Rightarrow> nat option"
  page_size :: nat
  now :: int

text \<open>The answer of \<open>callHpkVApi\<close> (src/lib/hpkv-api.ts): an error with the status of the
  response, or the data with its status.\<close>

datatype 'a api_result = ApiError nat | ApiData nat 'a

definition hpkv_get_record :: "env \<Rightarrow> kv \<Rightarrow> string \<Rightarrow> kv_value api_result" where
  "hpkv_get_record e kv key =
     (case fault e (GetRecord key) of
        Some st \<Rightarrow> ApiError st
      | None \<Rightarrow> (case map_of kv key of None \<Rightarrow> ApiError 404 | Some v \<Rightarrow> ApiData 200 v))"

definition hpkv_post_record :: "env \<Rightarrow> kv \<Rightarrow> string \<Rightarrow> kv_value \<Rightarrow> unit api_result \<times> kv" where
  "hpkv_post_record e kv key v =
     (case fault e (PostRecord key) of
        Some st \<Rightarrow> (ApiError st, kv)
      | None \<Rightarrow> (ApiData 200 (), AList.update key v kv))"

definition hpkv_delete_record :: "env \<Rightarrow> kv \<Rightarrow> string \<Rightarrow> unit api_result \<times> kv" where
  "hpkv_delete_record e kv key =
     (case fault e (DeleteRecord key) of
        Some st \<Rightarrow> (ApiError st, kv)
      | None \<Rightarrow>
         (case map_of kv key of
            None \<Rightarrow> (ApiError 404, kv)
          | Some v \<Rightarrow> (ApiData 200 (), AList.delete key kv)))"

definition keys_with_prefix :: "kv \<Rightarrow> string \<Rightarrow> string list" where
  "keys_with_prefix kv prefix = filter (\<lambda>k. startsWith k prefix) (map fst kv)"

text \<open>A page holds at most \<open>page_size + 1\<close> keys; the marker of the next page is the position
  it starts at.\<close>

definition hpkv_list :: "env \<Rightarrow> kv \<Rightarrow> string \<Rightarrow> nat option \<Rightarrow> (string list \<times> nat option) api_result" where
  "hpkv_list e kv prefix marker =
     (case fault e (ListKeys prefix marker) of
        Some st \<Rightarrow> ApiError st
      | None \<Rightarrow>
         (let ks = keys_with_prefix kv prefix;
              m = (case marker of None \<Rightarrow> 0 | Some i \<Rightarrow> i);
              n = Suc (page_size e)
          in ApiData 200 (take n (drop m ks), if m + n < length ks then Some (m + n) else None)))"

section \<open>Responses of the routes\<close>

datatype error_kind =
    ParametersRequired | CredentialsRequired | InvalidNumber | BodyRequired
  | FailedToGetMetadata | MetadataInvalidFormat | MetadataNotFound | MetadataParseFailed
  | PathIsDirectory | FailedToGetChunk nat | FailedToWriteChunk nat | MetadataUpdateFailed
  | InternalServerError | RootOrMissingPath | FailedToListKeys | EmptinessCheckFailed
  | DirectoryNotEmpty | DeleteDirectoryMetadataFailed | DeleteKeysFailed
  | NotModelled

type_synonym failure = "nat \<times> error_kind"

text \<open>\<open>JSON.parse\<close> on a text that is not kept as a \<open>MetaRecord\<close>. A JSON text is white space
  (space, tab, line feed, carriage return), a value, white space, and a value starts with
  one of \<open>{ [ " -\<close>, a digit, or the first letter of \<open>true\<close>, \<open>false\<close>, \<open>null\<close>. A text that does
  not start so makes \<open>JSON.parse\<close> throw, and the routes answer status 500. Any other text
  may parse to a value that is not a complete Metadata object (\<open>{}\<close>, a number, an object
  with a field missing): the routes go on with that value through the coercions of
  JavaScript. This model does not follow them there: the answer is the failure
  \<open>NotModelled\<close> with the status 0, which no route gives.\<close>

definition json_whitespace :: "16 word \<Rightarrow> bool" where
  "json_whitespace c = (c = 0x20 \<or> c = 0x09 \<or> c = 0x0A \<or> c = 0x0D)"

definition json_value_start :: "16 word \<Rightarrow> bool" where
  "json_value_start c =
     (c = 0x7B \<or> c = 0x5B \<or> c = 0x22 \<or> c = 0x2D \<or> (0x30 \<le> c \<and> c \<le> 0x39)
      \<or> c = 0x74 \<or> c = 0x66 \<or> c = 0x6E)"

definition may_be_json :: "js_string \<Rightarrow> bool" where
  "may_be_json s =
     (case dropWhile json_whitespace s of [] \<Rightarrow> False | c # cs \<Rightarrow> json_value_start c)"

definition parse_other_text :: "js_string \<Rightarrow> failure" where
  "parse_other_text s = (if may_be_json s then (0, NotModelled) else (500, MetadataParseFailed))"

text \<open>A response is an error with its HTTP status, or a payload with its status.\<close>

datatype 'a response = Failed nat error_kind | Succeeded nat 'a

text \<open>A query parameter read with \<open>parseInt\<close>: missing, not a number, or an integer.\<close>

datatype param = Absent | NaN | Num int

record request =
  path :: string
  offsetStr :: param
  sizeStr :: param
  apiKey :: string
  apiUrl :: string
  body :: string

section \<open>Keys\<close>

definition metadataKey :: "string \<Rightarrow> string" where
  "metadataKey p = p @ METADATA_SUFFIX"

definition chunkKey :: "string \<Rightarrow> nat \<Rightarrow> string" where
  "chunkKey p i = p @ CHUNK_SUFFIX @ decimal i"

text \<open>\<open>Math.ceil(size / MAX_CHUNK_SIZE)\<close> on an integer size.\<close>

definition ceil_chunks :: "int \<Rightarrow> int" where
  "ceil_chunks s = \<lceil>real_of_int s / real MAX_CHUNK_SIZE\<rceil>"

lemma ceil_chunks_div: "ceil_chunks s = - ((- s) div int MAX_CHUNK_SIZE)"
proof -
  have "real_of_int s / real MAX_CHUNK_SIZE = - (real_of_int (- s) / real_of_int (int MAX_CHUNK_SIZE))"
    by simp
  then show ?thesis
    unfolding ceil_chunks_def ceiling_def by (simp only: minus_minus floor_divide_of_int_eq)
qed

text \<open>The normalisation every \<open>getMetadata\<close> of the file routes applies to a parsed record:
  \<open>num_chunks\<close> is computed only when the record has none.\<close>

definition with_num_chunks :: "Metadata \<Rightarrow> Metadata" where
  "with_num_chunks m =
     (if size_bytes m > 0 \<and> num_chunks m = None
      then m\<lparr>num_chunks := Some (ceil_chunks (size_bytes m))\<rparr> else m)"

definition isDirectory :: "Metadata \<Rightarrow> bool" where
  "isDirectory m = (mode m AND S_IFMT = S_IFDIR)"

section \<open>Reading a file (GET of the read route)\<close>

text \<open>\<open>getMetadata\<close> of the read route: any error of the store, status 404 included, is an
  error of the lookup.\<close>

definition getMetadata_read :: "env \<Rightarrow> kv \<Rightarrow> string \<Rightarrow> failure + Metadata" where
  "getMetadata_read e kv p =
     (case hpkv_get_record e kv (p @ METADATA_SUFFIX) of
        ApiError st \<Rightarrow> Inl (st, FailedToGetMetadata)
      | ApiData st v \<Rightarrow>
         (case v of
            Text s \<Rightarrow> if s = [] then Inl (404, MetadataNotFound) else Inl (parse_other_text s)
          | MetaRecord m \<Rightarrow> Inr (with_num_chunks m)))"

text \<open>\<open>getChunk\<close> of the read route gives the chunk's text (\<open>None\<close> for null), the error and
  the status; with status 404 the error is null.\<close>

definition getChunk_read :: "env \<Rightarrow> kv \<Rightarrow> string \<Rightarrow> nat \<Rightarrow> js_string option \<times> error_kind option \<times> nat" where
  "getChunk_read e kv p chunkIndex =
     (case hpkv_get_record e kv (p @ CHUNK_SUFFIX @ decimal chunkIndex) of
        ApiError st \<Rightarrow> (None, if st = 404 then None else Some (FailedToGetChunk chunkIndex), st)
      | ApiData st v \<Rightarrow> (Some (value_text v), None, 200))"

text \<open>The loop over the chunks \<open>i = startChunk, ...\<close> while \<open>i \<le> endChunk\<close> and
  \<open>i < numChunks\<close>, with its accumulators \<open>combinedData\<close> and \<open>bytesRead\<close>. The offsets are
  natural numbers here: \<open>Math.max(0, a - b)\<close> is the truncated difference.\<close>

function read_chunks ::
  "env \<Rightarrow> kv \<Rightarrow> string \<Rightarrow> nat \<Rightarrow> nat \<Rightarrow> int \<Rightarrow> nat \<Rightarrow> nat \<Rightarrow> js_string \<Rightarrow> nat \<Rightarrow> failure + js_string" where
  "read_chunks e kv p offset readSize numChunks endChunk i combinedData bytesRead =
     (if i \<le> endChunk \<and> int i < numChunks then
        (case getChunk_read e kv p i of
           (chunkData, chunkError, chunkStatus) \<Rightarrow>
             (case (if chunkStatus \<noteq> 404 then chunkError else None) of
                Some err \<Rightarrow> Inl (chunkStatus, err)
              | None \<Rightarrow>
               (let chunkContent = (case chunkData of None \<Rightarrow> [] | Some c \<Rightarrow> c);
                    chunkStartOffset = i * MAX_CHUNK_SIZE;
                    readStartInChunk = max 0 (offset - chunkStartOffset);
                    readEndInChunk = min (length chunkContent) (offset + readSize - chunkStartOffset);
                    bytesToReadFromChunk = max 0 (readEndInChunk - readStartInChunk);
                    combinedData' =
                      (if bytesToReadFromChunk > 0
                       then combinedData @ substring chunkContent readStartInChunk readEndInChunk
                       else combinedData);
                    bytesRead' =
                      (if bytesToReadFromChunk > 0 then bytesRead + bytesToReadFromChunk else bytesRead)
                in if bytesRead' \<ge> readSize then Inr combinedData'
                   else read_chunks e kv p offset readSize numChunks endChunk (i + 1) combinedData' bytesRead')))
      else Inr combinedData)"
  by pat_completeness auto
termination
  by (relation "measure (\<lambda>(e, kv, p, offset, readSize, numChunks, endChunk, i, c, b). Suc endChunk - i)") auto

declare read_chunks.simps [simp del]

text \<open>The body of the \<open>try\<close> block, once offset and size are validated and size is not 0.\<close>

definition read_file :: "env \<Rightarrow> kv \<Rightarrow> string \<Rightarrow> nat \<Rightarrow> nat \<Rightarrow> byte list response" where
  "read_file e kv p offset sz =
     (case getMetadata_read e kv p of
        Inl (st, err) \<Rightarrow> Failed st err
      | Inr metadata \<Rightarrow>
         if isDirectory metadata then Failed 400 PathIsDirectory
         else
           (let fileSize = size_bytes metadata in
            if int offset \<ge> fileSize then Succeeded 200 []
            else
              (let readSize = nat (min (int sz) (fileSize - int offset)) in
               if readSize \<le> 0 then Succeeded 200 []
               else
                 (let numChunks = (case num_chunks metadata of Some n \<Rightarrow> n | None \<Rightarrow> ceil_chunks fileSize);
                      startChunk = offset div MAX_CHUNK_SIZE;
                      endChunk = (offset + readSize - 1) div MAX_CHUNK_SIZE
                  in case read_chunks e kv p offset readSize numChunks endChunk startChunk [] 0 of
                       Inl (st, err) \<Rightarrow> Failed st err
                     | Inr combinedData \<Rightarrow>
                         Succeeded 200 (utf8_encode
                           (if length combinedData > readSize then substring combinedData 0 readSize
                            else combinedData))))))"

definition GET_read :: "env \<Rightarrow> kv \<Rightarrow> request \<Rightarrow> byte list response" where
  "GET_read e kv req =
     (if path req = [] \<or> offsetStr req = Absent \<or> sizeStr req = Absent then Failed 400 ParametersRequired
      else if apiKey req = [] \<or> apiUrl req = [] then Failed 401 CredentialsRequired
      else
        (case (offsetStr req, sizeStr req) of
           (Num offset, Num sz) \<Rightarrow>
             if offset < 0 \<or> sz < 0 then Failed 400 InvalidNumber
             else if sz = 0 then Succeeded 200 []
             else read_file e kv (path req) (nat offset) (nat sz)
         | _ \<Rightarrow> Failed 400 InvalidNumber))"

section \<open>Deleting a path (DELETE of the delete route)\<close>

text \<open>\<open>getMetadata\<close> of the write and delete routes: status 404 is not an error and gives no
  metadata (\<open>Inr None\<close>, the status 404 of the source; \<open>Inr (Some m)\<close> is its status 200).
  The delete route writes the root's key \<open>/.__meta__\<close> out, the write route does not: it is
  the same text.\<close>

definition getMetadata :: "env \<Rightarrow> kv \<Rightarrow> string \<Rightarrow> failure + Metadata option" where
  "getMetadata e kv p =
     (case hpkv_get_record e kv (if p = ''/'' then ''/.__meta__'' else p @ METADATA_SUFFIX) of
        ApiError st \<Rightarrow> if st = 404 then Inr None else Inl (st, FailedToGetMetadata)
      | ApiData st v \<Rightarrow>
         (case v of
            Text s \<Rightarrow> if s = [] then Inl (500, MetadataInvalidFormat) else Inl (parse_other_text s)
          | MetaRecord m \<Rightarrow> Inr (Some (with_num_chunks m))))"

text \<open>\<open>listAllKeysWithPrefix\<close>: the pages of the listing, until one has no next marker.\<close>

function listAllKeysWithPrefix_from ::
  "env \<Rightarrow> kv \<Rightarrow> string \<Rightarrow> nat option \<Rightarrow> string list \<Rightarrow> failure + string list" where
  "listAllKeysWithPrefix_from e kv prefix marker allKeys =
     (case hpkv_list e kv prefix marker of
        ApiError st \<Rightarrow> Inl (st, FailedToListKeys)
      | ApiData st (items, nextMarker) \<Rightarrow>
         (case nextMarker of
            None \<Rightarrow> Inr (allKeys @ items)
          | Some m \<Rightarrow> listAllKeysWithPrefix_from e kv prefix (Some m) (allKeys @ items)))"
  by pat_completeness auto
termination
  by (relation "measure (\<lambda>(e, kv, prefix, marker, allKeys).
        length (keys_with_prefix kv prefix) - (case marker of None \<Rightarrow> 0 | Some i \<Rightarrow> i))")
     (auto simp: hpkv_list_def Let_def split: option.splits if_splits)

declare listAllKeysWithPrefix_from.simps [simp del]

definition listAllKeysWithPrefix :: "env \<Rightarrow> kv \<Rightarrow> string \<Rightarrow> failure + string list" where
  "listAllKeysWithPrefix e kv prefix = listAllKeysWithPrefix_from e kv prefix None []"

text \<open>\<open>deleteKey\<close>: status 404 counts as deleted.\<close>

definition deleteKey :: "env \<Rightarrow> kv \<Rightarrow> string \<Rightarrow> failure option \<times> kv" where
  "deleteKey e kv key =
     (case hpkv_delete_record e kv key of
        (ApiError st, kv') \<Rightarrow> (if st = 404 then None else Some (st, DeleteKeysFailed), kv')
      | (ApiData st u, kv') \<Rightarrow> (None, kv'))"

text \<open>\<open>Promise.all\<close> over the deletions: every key is tried, the results keep the order of the
  keys, and the first error among them is the one reported.\<close>

fun deleteKeys :: "env \<Rightarrow> kv \<Rightarrow> string list \<Rightarrow> failure option list \<times> kv" where
  "deleteKeys e kv [] = ([], kv)"
| "deleteKeys e kv (key # keys) =
     (case deleteKey e kv key of
        (r, kv') \<Rightarrow> (case deleteKeys e kv' keys of (rs, kv'') \<Rightarrow> (r # rs, kv'')))"

definition DELETE :: "env \<Rightarrow> kv \<Rightarrow> request \<Rightarrow> unit response \<times> kv" where
  "DELETE e kv req =
     (let p = path req in
      if p = [] \<or> p = ''/'' then (Failed 400 RootOrMissingPath, kv)
      else if apiKey req = [] \<or> apiUrl req = [] then (Failed 401 CredentialsRequired, kv)
      else
        (case getMetadata e kv p of
           Inl (st, err) \<Rightarrow> (Failed st err, kv)
         | Inr metadata \<Rightarrow>
            (let isDir = (case metadata of None \<Rightarrow> False | Some m \<Rightarrow> isDirectory m);
                 metaKey = p @ METADATA_SUFFIX
             in if isDir then
                  (let prefix = (if endsWith p ''/'' then p else p @ ''/'') in
                   case listAllKeysWithPrefix e kv prefix of
                     Inl (st, err) \<Rightarrow> (Failed st EmptinessCheckFailed, kv)
                   | Inr childKeys \<Rightarrow>
                       if length childKeys > 0 then (Failed 400 DirectoryNotEmpty, kv)
                       else
                         (case deleteKey e kv metaKey of
                            (Some (st, err), kv') \<Rightarrow> (Failed st DeleteDirectoryMetadataFailed, kv')
                          | (None, kv') \<Rightarrow> (Succeeded 200 (), kv')))
                else
                  (let chunkPrefix = p @ CHUNK_SUFFIX;
                       keysToDelete =
                         (case metadata of Some m \<Rightarrow> [metaKey] | None \<Rightarrow> [metaKey]) @
                         (case listAllKeysWithPrefix e kv chunkPrefix of
                            Inl listChunkError \<Rightarrow> []
                          | Inr chunkKeys \<Rightarrow> chunkKeys)
                   in case deleteKeys e kv keysToDelete of
                        (results, kv') \<Rightarrow>
                          (case List.find (\<lambda>r. r \<noteq> None) results of
                             Some (Some (st, err)) \<Rightarrow> (Failed st DeleteKeysFailed, kv')
                           | _ \<Rightarrow> (Succeeded 200 (), kv'))))))"

section \<open>Listing a directory (GET of the list route)\<close>

text \<open>\<open>str.split(c)\<close>.\<close>

fun split :: "char \<Rightarrow> string \<Rightarrow> string list" where
  "split c [] = [[]]"
| "split c (x # xs) =
     (if x = c then [] # split c xs
      else (case split c xs of [] \<Rightarrow> [[x]] | y # ys \<Rightarrow> (x # y) # ys))"









section \<open>The metadata of a path (the mkdir route's lookup, GET of the metadata route)\<close>

text \<open>\<open>getMetadata\<close> of the mkdir route: as the one of the write and delete routes, but the
  parsed record is returned as it is (by its comment there is no need to calculate
  \<open>num_chunks\<close> for directories).\<close>

definition getMetadata_mkdir :: "env \<Rightarrow> kv \<Rightarrow> string \<Rightarrow> failure + Metadata option" where
  "getMetadata_mkdir e kv p =
     (case hpkv_get_record e kv (if p = ''/'' then ''/.__meta__'' else p @ METADATA_SUFFIX) of
        ApiError st \<Rightarrow> if st = 404 then Inr None else Inl (st, FailedToGetMetadata)
      | ApiData st v \<Rightarrow>
         (case v of
            Text s \<Rightarrow> if s = [] then Inl (500, MetadataInvalidFormat) else Inl (parse_other_text s)
          | MetaRecord m \<Rightarrow> Inr (Some m)))"

text \<open>The metadata route answers with the parsed record as it is; every error of the store,
  status 404 included, is an error of the route.\<close>

definition GET_metadata :: "env \<Rightarrow> kv \<Rightarrow> request \<Rightarrow> Metadata response" where
  "GET_metadata e kv req =
     (let p = path req in
      if p = [] then Failed 400 ParametersRequired
      else if apiKey req = [] \<or> apiUrl req = [] then Failed 401 CredentialsRequired
      else
        (case hpkv_get_record e kv (if p = ''/'' then ''/.__meta__'' else p @ METADATA_SUFFIX) of
           ApiError st \<Rightarrow> Failed st FailedToGetMetadata
         | ApiData st v \<Rightarrow>
            (case v of
               Text s \<Rightarrow>
                 if s = [] then Failed 404 MetadataNotFound
                 else (case parse_other_text s of (st', err) \<Rightarrow> Failed st' err)
             | MetaRecord m \<Rightarrow> Succeeded 200 m)))"

section \<open>Writing a file (POST of the write route)\<close>

text \<open>\<open>getChunk\<close> of the write route: status 404 gives null and no error.\<close>

definition getChunk :: "env \<Rightarrow> kv \<Rightarrow> string \<Rightarrow> nat \<Rightarrow> failure + js_string option" where
  "getChunk e kv p chunkIndex =
     (case hpkv_get_record e kv (p @ CHUNK_SUFFIX @ decimal chunkIndex) of
        ApiError st \<Rightarrow> if st = 404 then Inr None else Inl (st, FailedToGetChunk chunkIndex)
      | ApiData st v \<Rightarrow> Inr (Some (value_text v)))"

definition writeChunk :: "env \<Rightarrow> kv \<Rightarrow> string \<Rightarrow> nat \<Rightarrow> js_string \<Rightarrow> nat option \<times> kv" where
  "writeChunk e kv p chunkIndex chunkData =
     (case hpkv_post_record e kv (p @ CHUNK_SUFFIX @ decimal chunkIndex) (Text chunkData) of
        (ApiError st, kv') \<Rightarrow> (Some st, kv')
      | (ApiData st u, kv') \<Rightarrow> (None, kv'))"

definition writeMetadata :: "env \<Rightarrow> kv \<Rightarrow> string \<Rightarrow> Metadata \<Rightarrow> nat option \<times> kv" where
  "writeMetadata e kv p metadata =
     (case hpkv_post_record e kv (p @ METADATA_SUFFIX) (MetaRecord metadata) of
        (ApiError st, kv') \<Rightarrow> (Some st, kv')
      | (ApiData st u, kv') \<Rightarrow> (None, kv'))"

text \<open>The new buffer of one chunk: allocated with zeros, then the three copies. \<open>None\<close> is
  the RangeError of a copy.\<close>

definition newChunk_of :: "byte list \<Rightarrow> byte list \<Rightarrow> nat \<Rightarrow> nat \<Rightarrow> nat \<Rightarrow> byte list option" where
  "newChunk_of existingChunk writeData writeStartInChunk writeEndInChunk currentWriteOffset =
     (let bytesToWriteInChunk = writeEndInChunk - writeStartInChunk;
          newChunkSize = max (length existingChunk) writeEndInChunk;
          newChunk = Buffer_alloc newChunkSize
      in Option.bind
           (if writeStartInChunk > 0
            then Buffer_copy existingChunk newChunk 0 0 (min writeStartInChunk (length existingChunk))
            else Some newChunk)
         (\<lambda>c1. Option.bind
           (Buffer_copy writeData c1 writeStartInChunk currentWriteOffset
              (currentWriteOffset + bytesToWriteInChunk))
         (\<lambda>c2. if writeEndInChunk < length existingChunk
               then Buffer_copy existingChunk c2 writeEndInChunk writeEndInChunk (length existingChunk)
               else Some c2)))"

text \<open>The read-modify-write loop over the chunks \<open>i \<le> endChunk\<close>, with \<open>currentWriteOffset\<close>.
  It returns the store as the writes so far left it, with the error that stopped it.\<close>

function write_chunks ::
  "env \<Rightarrow> string \<Rightarrow> nat \<Rightarrow> byte list \<Rightarrow> nat \<Rightarrow> nat \<Rightarrow> nat \<Rightarrow> kv \<Rightarrow> failure option \<times> kv" where
  "write_chunks e p offset writeData endChunk i currentWriteOffset kv =
     (if i \<le> endChunk then
        (let writeEnd = offset + length writeData;
             chunkStart = i * MAX_CHUNK_SIZE
         in case getChunk e kv p i of
              Inl getChunkError \<Rightarrow> (Some getChunkError, kv)
            | Inr existingChunkStr \<Rightarrow>
               (let existingChunk =
                      (case existingChunkStr of
                         None \<Rightarrow> Buffer_alloc 0
                       | Some str \<Rightarrow> if str = [] then Buffer_alloc 0 else Buffer_from_utf8 str);
                    writeStartInChunk = max 0 (offset - chunkStart);
                    writeEndInChunk = min MAX_CHUNK_SIZE (writeEnd - chunkStart);
                    bytesToWriteInChunk = writeEndInChunk - writeStartInChunk
                in case newChunk_of existingChunk writeData writeStartInChunk writeEndInChunk
                          currentWriteOffset of
                     None \<Rightarrow> (Some (500, InternalServerError), kv)
                   | Some newChunk \<Rightarrow>
                      (case writeChunk e kv p i (Buffer_toString_utf8 newChunk) of
                         (Some st, kv') \<Rightarrow> (Some (st, FailedToWriteChunk i), kv')
                       | (None, kv') \<Rightarrow>
                           write_chunks e p offset writeData endChunk (i + 1)
                             (currentWriteOffset + bytesToWriteInChunk) kv')))
      else (None, kv))"
  by pat_completeness auto
termination
  by (relation "measure (\<lambda>(e, p, offset, writeData, endChunk, i, c, kv). Suc endChunk - i)") auto

declare write_chunks.simps [simp del]

text \<open>The body of the \<open>try\<close> block, for data that is not empty.\<close>

definition write_file :: "env \<Rightarrow> kv \<Rightarrow> string \<Rightarrow> nat \<Rightarrow> byte list \<Rightarrow> nat response \<times> kv" where
  "write_file e kv p offset writeData =
     (case getMetadata e kv p of
        Inl (st, err) \<Rightarrow> (Failed st err, kv)
      | Inr found \<Rightarrow>
         (let isNewFile = (found = None);
              metadata =
                (case found of
                   None \<Rightarrow>
                     \<lparr>mode = DEFAULT_FILE_MODE, uid = 1000, gid = 1000, size_bytes = 0,
                      atime = now e, mtime = now e, ctime = now e, num_chunks = Some 0\<rparr>
                 | Some m \<Rightarrow> m)
          in if \<not> isNewFile \<and> isDirectory metadata then (Failed 400 PathIsDirectory, kv)
             else
               (let writeEnd = offset + length writeData;
                    startChunk = offset div MAX_CHUNK_SIZE;
                    endChunk = (writeEnd - 1) div MAX_CHUNK_SIZE
                in case write_chunks e p offset writeData endChunk startChunk 0 kv of
                     (Some (st, err), kv') \<Rightarrow> (Failed st err, kv')
                   | (None, kv') \<Rightarrow>
                      (let newSize = max (size_bytes metadata) (int writeEnd);
                           metadata' = metadata
                             \<lparr>size_bytes := newSize, mtime := now e, atime := now e,
                              ctime := (if isNewFile then now e else ctime metadata),
                              num_chunks := Some (ceil_chunks newSize)\<rparr>
                       in case writeMetadata e kv' p metadata' of
                            (Some st, kv'') \<Rightarrow> (Failed st MetadataUpdateFailed, kv'')
                          | (None, kv'') \<Rightarrow> (Succeeded 200 (length writeData), kv'')))))"

definition POST :: "env \<Rightarrow> kv \<Rightarrow> request \<Rightarrow> nat response \<times> kv" where
  "POST e kv req =
     (if path req = [] \<or> offsetStr req = Absent then (Failed 400 ParametersRequired, kv)
      else if apiKey req = [] \<or> apiUrl req = [] then (Failed 401 CredentialsRequired, kv)
      else
        (case offsetStr req of
           Num offset \<Rightarrow>
             if offset < 0 then (Failed 400 InvalidNumber, kv)
             else if body req = [] then (Failed 400 BodyRequired, kv)
             else
               (let writeData = Buffer_from_base64 (body req) in
                if length writeData = 0 then (Succeeded 200 0, kv)
                else write_file e kv (path req) (nat offset) writeData)
         | _ \<Rightarrow> (Failed 400 InvalidNumber, kv)))"

section \<open>Contents of a file: abstractions used in the statements about writes\<close>

text \<open>Bytes below 0x80: the bytes that the UTF-8 decoding of a chunk and the encoding of its
  text give back as they are.\<close>

definition ascii :: "byte list \<Rightarrow> bool" where
  "ascii bs = (\<forall>b \<in> set bs. b < 0x80)"

text \<open>The bytes \<open>getChunk\<close> of the write route hands to the loop for chunk \<open>j\<close>: the UTF-8
  encoding of the stored text, or no bytes when the key is absent.\<close>

definition existing_bytes :: "kv \<Rightarrow> string \<Rightarrow> nat \<Rightarrow> byte list" where
  "existing_bytes kv p j =
     (case map_of kv (p @ CHUNK_SUFFIX @ decimal j) of None \<Rightarrow> [] | Some v \<Rightarrow> utf8_encode (value_text v))"

text \<open>The new buffer of chunk \<open>j\<close> for a write of \<open>D\<close> at \<open>offset\<close>, written with take and drop.\<close>

definition patched :: "nat \<Rightarrow> byte list \<Rightarrow> nat \<Rightarrow> byte list \<Rightarrow> byte list" where
  "patched offset D j ex =
     (let chunkStart = j * MAX_CHUNK_SIZE;
          ws = offset - chunkStart;
          we = min MAX_CHUNK_SIZE (offset + length D - chunkStart)
      in take ws ex @ replicate (ws - length ex) 0 @ take (we - ws) (drop (chunkStart - offset) D)
           @ drop we ex)"

text \<open>The service answers 404 only through a missing key, never as a fault.\<close>

definition no_false_404 :: "env \<Rightarrow> bool" where
  "no_false_404 e = (\<forall>k. fault e (GetRecord k) \<noteq> Some 404)"

text \<open>Chunk \<open>j\<close> of the store shows the part of the byte sequence \<open>F\<close> that a read of
  \<open>readSize\<close> bytes at \<open>offset\<close> takes from it.\<close>

definition chunk_shows :: "kv \<Rightarrow> string \<Rightarrow> nat \<Rightarrow> nat \<Rightarrow> byte list \<Rightarrow> nat \<Rightarrow> bool" where
  "chunk_shows kv p offset readSize F j =
     (\<exists>v. map_of kv (p @ CHUNK_SUFFIX @ decimal j) = Some v \<and>
        min MAX_CHUNK_SIZE (offset + readSize - j * MAX_CHUNK_SIZE) \<le> length (value_text v) \<and>
        (j < (offset + readSize - 1) div MAX_CHUNK_SIZE \<longrightarrow> length (value_text v) = MAX_CHUNK_SIZE) \<and>
        take (min MAX_CHUNK_SIZE (offset + readSize - j * MAX_CHUNK_SIZE)) (value_text v) =
          map ucast (take (min MAX_CHUNK_SIZE (offset + readSize - j * MAX_CHUNK_SIZE))
                       (drop (j * MAX_CHUNK_SIZE) F)))"

text \<open>The size in the stored metadata record of a path, 0 without one.\<close>

definition stored_size :: "kv \<Rightarrow> string \<Rightarrow> int" where
  "stored_size kv p =
     (case map_of kv (p @ METADATA_SUFFIX) of Some (MetaRecord r) \<Rightarrow> size_bytes r | _ \<Rightarrow> 0)"

text \<open>The bytes of \<open>F\<close> that belong to chunk \<open>j\<close>.\<close>

definition block :: "nat \<Rightarrow> byte list \<Rightarrow> byte list" where
  "block j F = take MAX_CHUNK_SIZE (drop (j * MAX_CHUNK_SIZE) F)"

text \<open>The content of a file after \<open>D\<close> replaced its bytes from \<open>offset\<close> on.\<close>

definition overwrite :: "nat \<Rightarrow> byte list \<Rightarrow> byte list \<Rightarrow> byte list" where
  "overwrite offset D F = take offset F @ D @ drop (offset + length D) F"

text \<open>The store holds the regular file \<open>p\<close> with the ASCII content \<open>F\<close>: its metadata record
  has the size of \<open>F\<close>, and its chunks are exactly the blocks of \<open>F\<close>, as text.\<close>

definition holds_file :: "kv \<Rightarrow> string \<Rightarrow> byte list \<Rightarrow> bool" where
  "holds_file kv p F =
     (ascii F
      \<and> (\<exists>m. map_of kv (p @ METADATA_SUFFIX) = Some (MetaRecord m) \<and> \<not> isDirectory m
             \<and> size_bytes m = int (length F)
             \<and> (num_chunks m = None \<or> num_chunks m = Some (ceil_chunks (size_bytes m))))
      \<and> (\<forall>j. map_of kv (p @ CHUNK_SUFFIX @ decimal j) =
             (if j * MAX_CHUNK_SIZE < length F then Some (Text (map ucast (block j F))) else None)))"

text \<open>The metadata of \<open>p\<close> lets a write through: none, or the record of a regular file.\<close>

definition writable :: "kv \<Rightarrow> string \<Rightarrow> bool" where
  "writable kv p =
     (case map_of kv (p @ METADATA_SUFFIX) of
        None \<Rightarrow> True
      | Some (MetaRecord m) \<Rightarrow> \<not> isDirectory m
      | Some (Text s) \<Rightarrow> False)"

section \<open>Facts about the platform functions and the service\<close>

lemma decimal_0: "decimal 0 = ''0''"
  by (simp add: decimal.simps digit_char_def)

lemma take_drop_page: "take n (drop m xs) @ drop (m + n) xs = drop m xs"
  by (metis add.commute append_take_drop_id drop_drop)

text \<open>A scan that does not fail returns the stored keys that start with the prefix, in the
  order of the store, whatever the page size.\<close>

lemma listAll_from_keys:
  "listAllKeysWithPrefix_from e kv prefix marker acc = Inr ks \<Longrightarrow>
   ks = acc @ drop (case marker of None \<Rightarrow> 0 | Some i \<Rightarrow> i) (keys_with_prefix kv prefix)"
proof (induction e kv prefix marker acc rule: listAllKeysWithPrefix_from.induct)
  case (1 e kv prefix marker allKeys)
  let ?ks = "keys_with_prefix kv prefix"
  let ?m = "case marker of None \<Rightarrow> 0 | Some i \<Rightarrow> i"
  let ?n = "Suc (page_size e)"
  from "1.prems" obtain st items nextMarker where
    call: "hpkv_list e kv prefix marker = ApiData st (items, nextMarker)"
    by (subst (asm) listAllKeysWithPrefix_from.simps) (auto split: api_result.splits)
  then have items: "items = take ?n (drop ?m ?ks)"
    and nextm: "nextMarker = (if ?m + ?n < length ?ks then Some (?m + ?n) else None)"
    by (auto simp: hpkv_list_def Let_def split: option.splits)
  show ?case
  proof (cases nextMarker)
    case None
    with "1.prems" call have "ks = allKeys @ items"
      by (subst (asm) listAllKeysWithPrefix_from.simps) simp
    moreover from None nextm have "length ?ks \<le> ?m + ?n"
      by (simp split: if_splits)
    ultimately show ?thesis using items by simp
  next
    case (Some m')
    with "1.prems" call
    have rec: "listAllKeysWithPrefix_from e kv prefix (Some m') (allKeys @ items) = Inr ks"
      by (subst (asm) listAllKeysWithPrefix_from.simps) simp
    from Some nextm have m': "m' = ?m + ?n" by (simp split: if_splits)
    from "1.IH"[OF call refl Some rec] have "ks = (allKeys @ items) @ drop m' ?ks" by simp
    then show ?thesis using items m' take_drop_page[of ?n ?m ?ks]
      by simp
  qed
qed

lemma listAll_keys:
  "listAllKeysWithPrefix e kv prefix = Inr ks \<Longrightarrow> ks = keys_with_prefix kv prefix"
  using listAll_from_keys[of e kv prefix None "[]" ks] by (simp add: listAllKeysWithPrefix_def)

section \<open>Reading a path that has no metadata\<close>

text \<open>C8, as the spec states it: a read of a path without a metadata record fails with
  NotFound for every offset and every size, size 0 included. The route answers a read of
  size 0 before it looks at the store: on an empty store, size 0 gives an empty success.\<close>

theorem C8_counterexample:
  "map_of ([] :: kv) (''/f'' @ METADATA_SUFFIX) = None \<and>
   GET_read \<lparr>fault = (\<lambda>c. None), page_size = 0, now = 0\<rparr> []
     \<lparr>path = ''/f'', offsetStr = Num 0, sizeStr = Num 0, apiKey = ''key'', apiUrl = ''url'',
      body = []\<rparr>
   = Succeeded 200 []"
  by (simp add: GET_read_def)

text \<open>C8, amended: for a path without a metadata record, where the store answers the
  lookup, a read of a size above 0 fails with status 404 (NotFound) at every offset; a read
  of size 0 succeeds with an empty body.\<close>

theorem C8_read_without_metadata:
  assumes "map_of kv (p @ METADATA_SUFFIX) = None"
    and "fault e (GetRecord (p @ METADATA_SUFFIX)) = None"
    and "p \<noteq> []" and "k \<noteq> []" and "u \<noteq> []"
    and "0 \<le> offset" and "0 \<le> sz"
  shows "GET_read e kv
           \<lparr>path = p, offsetStr = Num offset, sizeStr = Num sz, apiKey = k, apiUrl = u, body = b\<rparr>
         = (if sz = 0 then Succeeded 200 [] else Failed 404 FailedToGetMetadata)"
  using assms
  by (simp add: GET_read_def read_file_def getMetadata_read_def hpkv_get_record_def)

theorem C8_read_without_metadata_witness:
  "GET_read \<lparr>fault = (\<lambda>c. None), page_size = 0, now = 0\<rparr> [(''/g.__meta__'', Text [])]
     \<lparr>path = ''/f'', offsetStr = Num 7, sizeStr = Num 5, apiKey = ''key'', apiUrl = ''url'',
      body = []\<rparr>
   = Failed 404 FailedToGetMetadata"
  using C8_read_without_metadata[of "[(''/g.__meta__'', Text [])]" "''/f''"
     "\<lparr>fault = (\<lambda>c. None), page_size = 0, now = 0\<rparr>" "''key''" "''url''" 7 5 "[]"]
  by (simp add: METADATA_SUFFIX_def)

section \<open>Reading a chunk that was never written\<close>

lemma read_chunks_absent:
  assumes "map_of kv (p @ CHUNK_SUFFIX @ decimal i) = None"
    and "fault e (GetRecord (p @ CHUNK_SUFFIX @ decimal i)) = None"
    and "0 < readSize"
  shows "read_chunks e kv p offset readSize numChunks i i [] 0 = Inr []"
  using assms
  by (simp add: read_chunks.simps[of _ _ _ _ _ _ i i] read_chunks.simps[of _ _ _ _ _ _ i "Suc i"]
      getChunk_read_def hpkv_get_record_def)

text \<open>C2, as the spec states it: a read inside a chunk that was never written, below the
  file's size, returns as many zero bytes as were asked for. A file of size 10 without its
  chunk 0, read at offset 2 for 3 bytes, gives an empty body and not three zero bytes.\<close>

theorem C2_counterexample:
  "GET_read \<lparr>fault = (\<lambda>c. None), page_size = 0, now = 0\<rparr>
     [(''/f.__meta__'', MetaRecord \<lparr>mode = 33188, uid = 1000, gid = 1000, size_bytes = 10,
         atime = 0, mtime = 0, ctime = 0, num_chunks = Some 1\<rparr>)]
     \<lparr>path = ''/f'', offsetStr = Num 2, sizeStr = Num 3, apiKey = ''key'', apiUrl = ''url'',
      body = []\<rparr>
   = Succeeded 200 [] \<and> [] \<noteq> replicate 3 (0 :: byte)"
  by (simp add: GET_read_def read_file_def getMetadata_read_def hpkv_get_record_def
      METADATA_SUFFIX_def with_num_chunks_def isDirectory_def S_IFMT_def S_IFDIR_def
      MAX_CHUNK_SIZE_def ceil_chunks_div read_chunks.simps[of _ _ _ _ _ _ 0 0]
      read_chunks.simps[of _ _ _ _ _ _ 0 "Suc 0"] getChunk_read_def CHUNK_SUFFIX_def decimal_0)

text \<open>C2, amended: for a regular file of size above 0 and a range of positive length that
  lies below the size and inside one chunk index whose key is not in the store, the read
  succeeds with an empty body (the missing chunk is skipped), where the store answers.\<close>

theorem C2_sparse_read_is_empty:
  assumes "map_of kv (p @ METADATA_SUFFIX) = Some (MetaRecord m)" and "\<not> isDirectory m"
    and "0 < len" and "int (offset + len) \<le> size_bytes m"
    and "offset div MAX_CHUNK_SIZE = (offset + len - 1) div MAX_CHUNK_SIZE"
    and "map_of kv (p @ CHUNK_SUFFIX @ decimal (offset div MAX_CHUNK_SIZE)) = None"
    and "\<forall>c. fault e c = None"
    and "p \<noteq> []" and "k \<noteq> []" and "u \<noteq> []"
  shows "GET_read e kv \<lparr>path = p, offsetStr = Num (int offset), sizeStr = Num (int len),
           apiKey = k, apiUrl = u, body = b\<rparr> = Succeeded 200 []"
proof -
  have dir: "\<not> isDirectory (with_num_chunks m)"
    using assms(2) by (simp add: with_num_chunks_def isDirectory_def)
  have sz: "size_bytes (with_num_chunks m) = size_bytes m"
    by (simp add: with_num_chunks_def)
  have rs: "nat (min (int len) (size_bytes m - int offset)) = len"
    using assms(3,4) by simp
  define i where "i = offset div MAX_CHUNK_SIZE"
  have e1: "offset div MAX_CHUNK_SIZE = i" and e2: "(offset + len - Suc 0) div MAX_CHUNK_SIZE = i"
    using assms(5) by (simp_all add: i_def)
  have loop: "read_chunks e kv p offset len nc i i [] 0 = Inr []" for nc
    using assms(3,6,7) by (intro read_chunks_absent) (auto simp: i_def)
  show ?thesis
    using assms(1,3,4,7,8,9,10) dir
    by (simp add: GET_read_def read_file_def getMetadata_read_def hpkv_get_record_def sz rs Let_def
        e1 e2 loop)
qed

theorem C2_sparse_read_is_empty_witness:
  "GET_read \<lparr>fault = (\<lambda>c. None), page_size = 0, now = 0\<rparr>
     [(''/s.__meta__'', MetaRecord \<lparr>mode = 33188, uid = 1000, gid = 1000, size_bytes = 6000,
         atime = 0, mtime = 0, ctime = 0, num_chunks = None\<rparr>),
      (''/s.chunk1'', Text [65, 66])]
     \<lparr>path = ''/s'', offsetStr = Num (int 100), sizeStr = Num (int 50), apiKey = ''key'',
      apiUrl = ''url'', body = []\<rparr>
   = Succeeded 200 []"
  using C2_sparse_read_is_empty[of
     "[(''/s.__meta__'', MetaRecord \<lparr>mode = 33188, uid = 1000, gid = 1000, size_bytes = 6000,
         atime = 0, mtime = 0, ctime = 0, num_chunks = None\<rparr>),
      (''/s.chunk1'', Text [65, 66])]" "''/s''"
     "\<lparr>mode = 33188, uid = 1000, gid = 1000, size_bytes = 6000,
         atime = 0, mtime = 0, ctime = 0, num_chunks = None\<rparr>" 50 100
     "\<lparr>fault = (\<lambda>c. None), page_size = 0, now = 0\<rparr>" "''key''" "''url''" "[]"]
  by (simp add: METADATA_SUFFIX_def CHUNK_SUFFIX_def MAX_CHUNK_SIZE_def isDirectory_def
      S_IFMT_def S_IFDIR_def decimal_0)

section \<open>The chunk count of a metadata record\<close>

lemma with_num_chunks_size [simp]: "size_bytes (with_num_chunks m) = size_bytes m"
  by (simp add: with_num_chunks_def)

lemma with_num_chunks_num:
  "0 < size_bytes m \<Longrightarrow>
   num_chunks (with_num_chunks m) =
     (case num_chunks m of None \<Rightarrow> Some (ceil_chunks (size_bytes m)) | Some n \<Rightarrow> Some n)"
  by (simp add: with_num_chunks_def split: option.splits)

lemma getMetadata_stored:
  assumes "getMetadata e kv p = Inr (Some m)" and "map_of kv (p @ METADATA_SUFFIX) = Some (MetaRecord r)"
  shows "m = with_num_chunks r"
  using assms
  by (auto simp: getMetadata_def hpkv_get_record_def METADATA_SUFFIX_def
      split: option.splits if_splits kv_value.splits)

lemma getMetadata_read_stored:
  assumes "getMetadata_read e kv p = Inr m" and "map_of kv (p @ METADATA_SUFFIX) = Some (MetaRecord r)"
  shows "m = with_num_chunks r"
  using assms
  by (auto simp: getMetadata_read_def hpkv_get_record_def
      split: option.splits if_splits kv_value.splits)

lemma write_file_persists:
  assumes "write_file e kv p offset writeData = (Succeeded st w, kv')" and "writeData \<noteq> []"
  shows "\<exists>m. map_of kv' (p @ METADATA_SUFFIX) = Some (MetaRecord m) \<and> 0 < size_bytes m \<and>
           num_chunks m = Some (ceil_chunks (size_bytes m))"
proof -
  have pos: "0 < int offset + int (length writeData)"
    using assms(2) by (cases writeData) auto
  then have pos': "0 < max x (int offset + int (length writeData))" for x
    by simp
  from assms(1) show ?thesis
    by (auto simp: write_file_def Let_def writeMetadata_def hpkv_post_record_def update_conv'
        pos pos' split: sum.splits prod.splits option.splits if_splits)
qed

text \<open>C5, as the spec states it: whenever size is above 0, \<open>num_chunks\<close> is the ceiling of
  size / MAX_CHUNK_SIZE in every record \<open>getMetadata\<close> returns, also when the stored record
  carries a count that disagrees with its size. A stored record of size 1 with the count 5
  comes back with the count 5, and the ceiling is 1.\<close>

theorem C5_counterexample:
  "getMetadata \<lparr>fault = (\<lambda>c. None), page_size = 0, now = 0\<rparr>
     [(''/f.__meta__'', MetaRecord \<lparr>mode = 33188, uid = 1000, gid = 1000, size_bytes = 1,
         atime = 0, mtime = 0, ctime = 0, num_chunks = Some 5\<rparr>)] ''/f''
   = Inr (Some \<lparr>mode = 33188, uid = 1000, gid = 1000, size_bytes = 1,
         atime = 0, mtime = 0, ctime = 0, num_chunks = Some 5\<rparr>)
   \<and> ceil_chunks 1 = 1"
  by (simp add: getMetadata_def hpkv_get_record_def METADATA_SUFFIX_def with_num_chunks_def
      ceil_chunks_div MAX_CHUNK_SIZE_def)

lemma getMetadata_mkdir_stored:
  assumes "getMetadata_mkdir e kv p = Inr (Some m)" and "map_of kv (p @ METADATA_SUFFIX) = Some (MetaRecord r)"
  shows "m = r"
  using assms
  by (auto simp: getMetadata_mkdir_def hpkv_get_record_def METADATA_SUFFIX_def
      split: option.splits if_splits kv_value.splits)

lemma GET_metadata_stored:
  assumes "GET_metadata e kv req = Succeeded st m"
    and "map_of kv (path req @ METADATA_SUFFIX) = Some (MetaRecord r)"
  shows "m = r"
  using assms
  by (auto simp: GET_metadata_def hpkv_get_record_def METADATA_SUFFIX_def Let_def
      split: option.splits if_splits kv_value.splits prod.splits)

text \<open>C5, amended: a record returned by \<open>getMetadata\<close> of the write and delete routes or of
  the read route with a size above 0 has the ceiling as its count when the stored record has
  no count, and the stored count as it is otherwise; \<open>getMetadata\<close> of the mkdir route and the
  metadata route return the stored record as it is, with the stored count or none; and every
  record that a write of data that is not empty persists, for a path whose metadata was
  absent or the complete record of a regular file, has a size above 0 and the ceiling of its
  size as its count.\<close>

theorem C5_num_chunks:
  "(\<forall>r m. map_of kv (p @ METADATA_SUFFIX) = Some (MetaRecord r) \<and> getMetadata e kv p = Inr (Some m)
           \<and> 0 < size_bytes m \<longrightarrow>
      num_chunks m = (case num_chunks r of None \<Rightarrow> Some (ceil_chunks (size_bytes m)) | Some n \<Rightarrow> Some n))
   \<and> (\<forall>r m. map_of kv (p @ METADATA_SUFFIX) = Some (MetaRecord r) \<and> getMetadata_read e kv p = Inr m
           \<and> 0 < size_bytes m \<longrightarrow>
      num_chunks m = (case num_chunks r of None \<Rightarrow> Some (ceil_chunks (size_bytes m)) | Some n \<Rightarrow> Some n))
   \<and> (\<forall>r m. map_of kv (p @ METADATA_SUFFIX) = Some (MetaRecord r)
           \<and> getMetadata_mkdir e kv p = Inr (Some m) \<longrightarrow> m = r)
   \<and> (\<forall>r req st m. map_of kv (p @ METADATA_SUFFIX) = Some (MetaRecord r) \<and> path req = p
           \<and> GET_metadata e kv req = Succeeded st m \<longrightarrow> m = r)
   \<and> (\<forall>req st w kv'. writable kv p \<and> path req = p \<and> POST e kv req = (Succeeded st w, kv')
           \<and> 0 < w \<longrightarrow>
        (\<exists>m. map_of kv' (p @ METADATA_SUFFIX) = Some (MetaRecord m) \<and> 0 < size_bytes m \<and>
             num_chunks m = Some (ceil_chunks (size_bytes m))))"
proof (intro conjI allI impI)
  fix r m
  assume "map_of kv (p @ METADATA_SUFFIX) = Some (MetaRecord r) \<and> getMetadata e kv p = Inr (Some m)
           \<and> 0 < size_bytes m"
  then show "num_chunks m = (case num_chunks r of None \<Rightarrow> Some (ceil_chunks (size_bytes m)) | Some n \<Rightarrow> Some n)"
    using getMetadata_stored[of e kv p m r] with_num_chunks_num[of r]
    by (auto split: option.splits)
next
  fix r m
  assume "map_of kv (p @ METADATA_SUFFIX) = Some (MetaRecord r) \<and> getMetadata_read e kv p = Inr m
           \<and> 0 < size_bytes m"
  then show "num_chunks m = (case num_chunks r of None \<Rightarrow> Some (ceil_chunks (size_bytes m)) | Some n \<Rightarrow> Some n)"
    using getMetadata_read_stored[of e kv p m r] with_num_chunks_num[of r]
    by (auto split: option.splits)
next
  fix r m
  assume "map_of kv (p @ METADATA_SUFFIX) = Some (MetaRecord r)
           \<and> getMetadata_mkdir e kv p = Inr (Some m)"
  then show "m = r" using getMetadata_mkdir_stored[of e kv p m r] by simp
next
  fix r req st m
  assume "map_of kv (p @ METADATA_SUFFIX) = Some (MetaRecord r) \<and> path req = p
           \<and> GET_metadata e kv req = Succeeded st m"
  then show "m = r" using GET_metadata_stored[of e kv req st m r] by simp
next
  fix req st w kv'
  assume a: "writable kv p \<and> path req = p \<and> POST e kv req = (Succeeded st w, kv') \<and> 0 < w"
  then have "write_file e kv p (nat (case offsetStr req of Num i \<Rightarrow> i | _ \<Rightarrow> 0)) (Buffer_from_base64 (body req))
               = (Succeeded st w, kv') \<and> Buffer_from_base64 (body req) \<noteq> []"
    by (auto simp: POST_def Let_def split: if_splits param.splits)
  then show "\<exists>m. map_of kv' (p @ METADATA_SUFFIX) = Some (MetaRecord m) \<and> 0 < size_bytes m \<and>
             num_chunks m = Some (ceil_chunks (size_bytes m))"
    using write_file_persists by blast
qed

lemma base64_QUJD: "Buffer_from_base64 ''QUJD'' = [65, 66, 67]"
  by (simp add: Buffer_from_base64_def base64_value_def List.map_filter_def)

lemma POST_ABC:
  "POST \<lparr>fault = (\<lambda>c. None), page_size = 0, now = 7\<rparr> []
     \<lparr>path = ''/f'', offsetStr = Num 0, sizeStr = Absent, apiKey = ''key'', apiUrl = ''url'',
      body = ''QUJD''\<rparr>
   = (Succeeded 200 3,
      [(''/f.chunk0'', Text [65, 66, 67]),
       (''/f.__meta__'', MetaRecord \<lparr>mode = 33188, uid = 1000, gid = 1000, size_bytes = 3,
          atime = 7, mtime = 7, ctime = 7, num_chunks = Some 1\<rparr>)])"
  by (simp add: POST_def base64_QUJD write_file_def getMetadata_def hpkv_get_record_def
      METADATA_SUFFIX_def MAX_CHUNK_SIZE_def Let_def
      write_chunks.simps[of _ _ _ _ _ 0] write_chunks.simps[of _ _ _ _ _ "Suc 0"]
      getChunk_def CHUNK_SUFFIX_def decimal_0 Buffer_alloc_def newChunk_of_def Buffer_copy_def
      Buffer_toString_utf8_def utf8_start_def
      writeChunk_def hpkv_post_record_def writeMetadata_def DEFAULT_FILE_MODE_def ceil_chunks_div)

theorem C5_num_chunks_witness:
  "(\<exists>m. getMetadata \<lparr>fault = (\<lambda>c. None), page_size = 0, now = 7\<rparr>
          [(''/f.__meta__'', MetaRecord \<lparr>mode = 33188, uid = 1000, gid = 1000, size_bytes = 3001,
             atime = 0, mtime = 0, ctime = 0, num_chunks = None\<rparr>)] ''/f'' = Inr (Some m)
        \<and> num_chunks m = Some (ceil_chunks 3001) \<and> ceil_chunks 3001 = 2)
   \<and> (\<exists>m. getMetadata_read \<lparr>fault = (\<lambda>c. None), page_size = 0, now = 7\<rparr>
          [(''/f.__meta__'', MetaRecord \<lparr>mode = 33188, uid = 1000, gid = 1000, size_bytes = 3001,
             atime = 0, mtime = 0, ctime = 0, num_chunks = None\<rparr>)] ''/f'' = Inr m
        \<and> num_chunks m = Some (ceil_chunks 3001))
   \<and> (\<exists>m. getMetadata_mkdir \<lparr>fault = (\<lambda>c. None), page_size = 0, now = 7\<rparr>
          [(''/f.__meta__'', MetaRecord \<lparr>mode = 33188, uid = 1000, gid = 1000, size_bytes = 3001,
             atime = 0, mtime = 0, ctime = 0, num_chunks = None\<rparr>)] ''/f'' = Inr (Some m)
        \<and> size_bytes m = 3001 \<and> num_chunks m = None)
   \<and> (\<exists>m. GET_metadata \<lparr>fault = (\<lambda>c. None), page_size = 0, now = 7\<rparr>
          [(''/f.__meta__'', MetaRecord \<lparr>mode = 33188, uid = 1000, gid = 1000, size_bytes = 3001,
             atime = 0, mtime = 0, ctime = 0, num_chunks = None\<rparr>)]
          \<lparr>path = ''/f'', offsetStr = Absent, sizeStr = Absent, apiKey = ''key'',
           apiUrl = ''url'', body = []\<rparr> = Succeeded 200 m
        \<and> size_bytes m = 3001 \<and> num_chunks m = None)
   \<and> (\<exists>m. map_of (snd (POST \<lparr>fault = (\<lambda>c. None), page_size = 0, now = 7\<rparr> []
             \<lparr>path = ''/f'', offsetStr = Num 0, sizeStr = Absent, apiKey = ''key'',
              apiUrl = ''url'', body = ''QUJD''\<rparr>)) (''/f'' @ METADATA_SUFFIX) = Some (MetaRecord m)
        \<and> 0 < size_bytes m \<and> num_chunks m = Some (ceil_chunks (size_bytes m)))"
proof -
  let ?e = "\<lparr>fault = (\<lambda>c. None), page_size = 0, now = 7\<rparr>"
  let ?r = "\<lparr>mode = 33188, uid = 1000, gid = 1000, size_bytes = 3001,
             atime = 0, mtime = 0, ctime = 0, num_chunks = None\<rparr>"
  let ?kv = "[(''/f.__meta__'', MetaRecord ?r)]"
  let ?m = "?r\<lparr>num_chunks := Some (ceil_chunks 3001)\<rparr>"
  let ?req = "\<lparr>path = ''/f'', offsetStr = Num 0, sizeStr = Absent, apiKey = ''key'',
              apiUrl = ''url'', body = ''QUJD''\<rparr>"
  let ?get = "\<lparr>path = ''/f'', offsetStr = Absent, sizeStr = Absent, apiKey = ''key'',
           apiUrl = ''url'', body = []\<rparr>"
  have g: "getMetadata ?e ?kv ''/f'' = Inr (Some ?m)"
    by (simp add: getMetadata_def hpkv_get_record_def METADATA_SUFFIX_def with_num_chunks_def)
  have gr: "getMetadata_read ?e ?kv ''/f'' = Inr ?m"
    by (simp add: getMetadata_read_def hpkv_get_record_def METADATA_SUFFIX_def with_num_chunks_def)
  have gm: "\<exists>m. getMetadata_mkdir ?e ?kv ''/f'' = Inr (Some m)"
    by (simp add: getMetadata_mkdir_def hpkv_get_record_def METADATA_SUFFIX_def)
  have gg: "\<exists>m. GET_metadata ?e ?kv ?get = Succeeded 200 m"
    by (simp add: GET_metadata_def hpkv_get_record_def METADATA_SUFFIX_def)
  have st: "map_of ?kv (''/f'' @ METADATA_SUFFIX) = Some (MetaRecord ?r)"
    by (simp add: METADATA_SUFFIX_def)
  have c: "ceil_chunks 3001 = 2"
    by (simp add: ceil_chunks_div MAX_CHUNK_SIZE_def)
  have w: "writable [] ''/f''" by (simp add: writable_def)
  note a = C5_num_chunks[of ?kv "''/f''" ?e]
  note b = C5_num_chunks[of "[]" "''/f''" ?e]
  from a g st have 1: "num_chunks ?m = Some (ceil_chunks 3001)" by simp
  from a gr st have 2: "num_chunks ?m = Some (ceil_chunks 3001)" by simp
  note a3 = a[THEN conjunct2, THEN conjunct2, THEN conjunct1, rule_format]
  note a4 = a[THEN conjunct2, THEN conjunct2, THEN conjunct2, THEN conjunct1, rule_format]
  note b5 = b[THEN conjunct2, THEN conjunct2, THEN conjunct2, THEN conjunct2, rule_format]
  from gm obtain m1 where m1: "getMetadata_mkdir ?e ?kv ''/f'' = Inr (Some m1)" ..
  have "m1 = ?r" by (rule a3) (simp only: st m1)
  with m1 have 3: "\<exists>m. getMetadata_mkdir ?e ?kv ''/f'' = Inr (Some m)
        \<and> size_bytes m = 3001 \<and> num_chunks m = None" by simp
  from gg obtain m2 where m2: "GET_metadata ?e ?kv ?get = Succeeded 200 m2" ..
  have "m2 = ?r" by (rule a4[of _ ?get 200]) (simp add: m2 METADATA_SUFFIX_def)
  with m2 have 4: "\<exists>m. GET_metadata ?e ?kv ?get = Succeeded 200 m
        \<and> size_bytes m = 3001 \<and> num_chunks m = None" by simp
  have 5: "\<exists>m. map_of (snd (POST ?e [] ?req)) (''/f'' @ METADATA_SUFFIX) = Some (MetaRecord m)
        \<and> 0 < size_bytes m \<and> num_chunks m = Some (ceil_chunks (size_bytes m))"
    by (rule b5[of ?req 200 3]) (simp add: w POST_ABC)
  show ?thesis
    apply (intro conjI)
    subgoal using g 1 c by simp
    subgoal using gr 2 by simp
    subgoal by (rule 3)
    subgoal by (rule 4)
    subgoal by (rule 5)
    done
qed

section \<open>Deleting a file or a directory\<close>

lemma deleteKey_map:
  assumes "deleteKey e kv key = (None, kv')" and "fault e (DeleteRecord key) \<noteq> Some 404"
  shows "map_of kv' = (map_of kv)(key := None)"
  using assms
  by (auto simp: deleteKey_def hpkv_delete_record_def delete_conv' fun_eq_iff
      split: option.splits if_splits)

lemma deleteKey_result:
  "deleteKey e kv key = (r, kv') \<Longrightarrow> r = None \<or> (\<exists>st. r = Some (st, DeleteKeysFailed))"
  by (auto simp: deleteKey_def hpkv_delete_record_def split: option.splits if_splits)

lemma deleteKeys_map:
  assumes "deleteKeys e kv ks = (rs, kv')" and "List.find (\<lambda>r. r \<noteq> None) rs = None"
    and "\<forall>k. fault e (DeleteRecord k) \<noteq> Some 404"
  shows "map_of kv' = (\<lambda>k. if k \<in> set ks then None else map_of kv k)"
  using assms
proof (induction ks arbitrary: kv rs)
  case Nil
  then show ?case by simp
next
  case (Cons key ks)
  from Cons.prems(1) obtain r kv1 rs' where
    d: "deleteKey e kv key = (r, kv1)" and ds: "deleteKeys e kv1 ks = (rs', kv')" and rs: "rs = r # rs'"
    by (auto split: prod.splits)
  from Cons.prems(2) rs have r: "r = None"
    by (cases r) (simp_all split: if_splits)
  from Cons.prems(2) rs r have f: "List.find (\<lambda>r. r \<noteq> None) rs' = None"
    by simp
  from deleteKey_map[OF d[unfolded r]] Cons.prems(3) have m1: "map_of kv1 = (map_of kv)(key := None)"
    by simp
  from Cons.IH[OF ds f Cons.prems(3)] have "map_of kv' = (\<lambda>k. if k \<in> set ks then None else map_of kv1 k)" .
  with m1 show ?case by (auto simp: fun_eq_iff)
qed

lemma find_results:
  "(case List.find (\<lambda>r. r \<noteq> None) results of Some (Some (st, err)) \<Rightarrow> (Failed st DeleteKeysFailed, kv')
      | _ \<Rightarrow> (Succeeded 200 (), kv')) = (Succeeded st' u, kv'')
   \<Longrightarrow> List.find (\<lambda>r. r \<noteq> None) results = None \<and> kv'' = kv'"
  by (auto split: option.splits dest: find_Some_iff[THEN iffD1])

lemma startsWith_append [simp]: "startsWith (p @ s) p"
  by (simp add: startsWith_def)

lemma stored_key_listed:
  "map_of kv k = Some v \<Longrightarrow> startsWith k prefix \<Longrightarrow> k \<in> set (keys_with_prefix kv prefix)"
  by (auto simp: keys_with_prefix_def dest: map_of_SomeD intro: rev_image_eqI)

lemma listAll_from_no_fault:
  "\<forall>mk. fault e (ListKeys prefix mk) = None \<Longrightarrow>
   listAllKeysWithPrefix_from e kv prefix marker acc \<noteq> Inl x"
proof (induction e kv prefix marker acc rule: listAllKeysWithPrefix_from.induct)
  case (1 e kv prefix marker allKeys)
  from "1.prems" obtain items nextMarker where
    call: "hpkv_list e kv prefix marker = ApiData 200 (items, nextMarker)"
    by (auto simp: hpkv_list_def Let_def)
  show ?case
  proof (cases nextMarker)
    case None
    with call show ?thesis
      by (subst listAllKeysWithPrefix_from.simps) simp
  next
    case (Some m')
    from "1.IH"[OF call refl Some "1.prems"] call Some show ?thesis
      by (subst listAllKeysWithPrefix_from.simps) simp
  qed
qed

lemma listAll_no_fault:
  assumes "\<forall>mk. fault e (ListKeys prefix mk) = None"
  shows "listAllKeysWithPrefix e kv prefix = Inr (keys_with_prefix kv prefix)"
proof (cases "listAllKeysWithPrefix e kv prefix")
  case (Inl x)
  with listAll_from_no_fault[OF assms] show ?thesis
    by (simp add: listAllKeysWithPrefix_def)
next
  case (Inr ks)
  with listAll_keys[OF Inr] show ?thesis by simp
qed

lemma isDirectory_with_num_chunks [simp]: "isDirectory (with_num_chunks m) = isDirectory m"
  by (simp add: isDirectory_def with_num_chunks_def)

lemma getMetadata_present:
  assumes "map_of kv (p @ METADATA_SUFFIX) = Some (MetaRecord m)"
  shows "getMetadata e kv p = Inr (Some (with_num_chunks m)) \<or> getMetadata e kv p = Inr None
         \<or> (\<exists>st. getMetadata e kv p = Inl (st, FailedToGetMetadata))"
  using assms
  by (auto simp: getMetadata_def hpkv_get_record_def METADATA_SUFFIX_def split: option.splits)

lemma file_mode_not_directory: "\<not> isDirectory \<lparr>mode = 33188, uid = a, gid = b, size_bytes = c,
         atime = d, mtime = f, ctime = g, num_chunks = h\<rparr>"
  by (simp add: isDirectory_def S_IFMT_def S_IFDIR_def)


text \<open>C10: when the path is not a directory and the scan for its chunk keys fails, the
  deletion does not report the failure: it deletes the metadata key and succeeds (where the
  store answers that one deletion), and every other key of the store, the file's chunk keys
  among them, is left as it was.\<close>

theorem C10_delete_hides_scan_failure:
  assumes "p \<noteq> []" and "p \<noteq> ''/''" and "k \<noteq> []" and "u \<noteq> []"
    and "getMetadata e kv p = Inr md"
    and "\<forall>m. md = Some m \<longrightarrow> \<not> isDirectory m"
    and "listAllKeysWithPrefix e kv (p @ CHUNK_SUFFIX) = Inl err"
    and "fault e (DeleteRecord (p @ METADATA_SUFFIX)) = None"
  shows "\<exists>kv'. DELETE e kv \<lparr>path = p, offsetStr = o1, sizeStr = o2, apiKey = k, apiUrl = u, body = b\<rparr>
            = (Succeeded 200 (), kv')
          \<and> map_of kv' = (map_of kv)(p @ METADATA_SUFFIX := None)"
proof -
  obtain r kv' where d: "deleteKey e kv (p @ METADATA_SUFFIX) = (r, kv')"
    by (cases "deleteKey e kv (p @ METADATA_SUFFIX)")
  with assms(8) have r: "r = None"
    by (auto simp: deleteKey_def hpkv_delete_record_def split: option.splits)
  from deleteKey_map[OF d[unfolded r]] assms(8)
  have m: "map_of kv' = (map_of kv)(p @ METADATA_SUFFIX := None)" by simp
  have "DELETE e kv \<lparr>path = p, offsetStr = o1, sizeStr = o2, apiKey = k, apiUrl = u, body = b\<rparr>
            = (Succeeded 200 (), kv')"
    using assms(1-7) d r
    by (cases md) (simp_all add: DELETE_def Let_def)
  with m show ?thesis by blast
qed

text \<open>An instance: the first page of the scan fails with status 500, the deletion succeeds,
  the metadata key is gone and chunk 0 is still stored.\<close>

theorem C10_delete_hides_scan_failure_witness:
  "\<exists>kv'. DELETE \<lparr>fault = (\<lambda>c. if c = ListKeys ''/f.chunk'' None then Some 500 else None),
                  page_size = 0, now = 0\<rparr>
            [(''/f.__meta__'', MetaRecord \<lparr>mode = 33188, uid = 1000, gid = 1000, size_bytes = 1,
                atime = 0, mtime = 0, ctime = 0, num_chunks = Some 1\<rparr>),
             (''/f.chunk0'', Text [65])]
            \<lparr>path = ''/f'', offsetStr = Absent, sizeStr = Absent, apiKey = ''key'', apiUrl = ''url'',
             body = []\<rparr> = (Succeeded 200 (), kv')
         \<and> map_of kv' ''/f.__meta__'' = None \<and> map_of kv' ''/f.chunk0'' = Some (Text [65])"
proof -
  let ?e = "\<lparr>fault = (\<lambda>c. if c = ListKeys ''/f.chunk'' None then Some 500 else None),
                  page_size = 0, now = 0\<rparr>"
  let ?m = "\<lparr>mode = 33188, uid = 1000, gid = 1000, size_bytes = 1,
                atime = 0, mtime = 0, ctime = 0, num_chunks = Some (1::int)\<rparr>"
  let ?kv = "[(''/f.__meta__'', MetaRecord ?m), (''/f.chunk0'', Text [65])]"
  have g: "getMetadata ?e ?kv ''/f'' = Inr (Some ?m)"
    by (simp add: getMetadata_def hpkv_get_record_def METADATA_SUFFIX_def with_num_chunks_def)
  have l: "listAllKeysWithPrefix ?e ?kv (''/f'' @ CHUNK_SUFFIX) = Inl (500, FailedToListKeys)"
    by (simp add: listAllKeysWithPrefix_def listAllKeysWithPrefix_from.simps hpkv_list_def
        CHUNK_SUFFIX_def)
  have nd: "\<forall>m. Some ?m = Some m \<longrightarrow> \<not> isDirectory m"
    using file_mode_not_directory by simp
  from C10_delete_hides_scan_failure[of "''/f''" "''key''" "''url''" ?e ?kv "Some ?m"
      "(500, FailedToListKeys)" Absent Absent "[]", OF _ _ _ _ g nd l]
  show ?thesis
    by (auto simp: METADATA_SUFFIX_def)
qed

text \<open>C6, as the spec states it: after a deletion of a regular file that returns success,
  none of its chunk keys and not its metadata key can be retrieved. With a scan that fails
  (status 503 here) the deletion of a file with \<open>num_chunks = 1\<close> returns success and
  chunk 0 is still stored.\<close>

theorem C6_counterexample:
  "map_of [(''/g.__meta__'', MetaRecord \<lparr>mode = 33188, uid = 1000, gid = 1000, size_bytes = 2,
                atime = 0, mtime = 0, ctime = 0, num_chunks = Some 1\<rparr>),
           (''/g.chunk0'', Text [72, 73])] (''/g'' @ METADATA_SUFFIX)
     = Some (MetaRecord \<lparr>mode = 33188, uid = 1000, gid = 1000, size_bytes = 2,
                atime = 0, mtime = 0, ctime = 0, num_chunks = Some 1\<rparr>)
   \<and> DELETE \<lparr>fault = (\<lambda>c. if c = ListKeys ''/g.chunk'' None then Some 503 else None),
             page_size = 0, now = 0\<rparr>
        [(''/g.__meta__'', MetaRecord \<lparr>mode = 33188, uid = 1000, gid = 1000, size_bytes = 2,
                atime = 0, mtime = 0, ctime = 0, num_chunks = Some 1\<rparr>),
         (''/g.chunk0'', Text [72, 73])]
        \<lparr>path = ''/g'', offsetStr = Absent, sizeStr = Absent, apiKey = ''key'', apiUrl = ''url'',
         body = []\<rparr>
      = (Succeeded 200 (), [(''/g.chunk0'', Text [72, 73])])
   \<and> map_of [(''/g.chunk0'', Text [72, 73])] (''/g'' @ CHUNK_SUFFIX @ decimal 0) = Some (Text [72, 73])"
  by (simp add: DELETE_def getMetadata_def hpkv_get_record_def METADATA_SUFFIX_def
      with_num_chunks_def isDirectory_def S_IFMT_def S_IFDIR_def Let_def
      listAllKeysWithPrefix_def listAllKeysWithPrefix_from.simps hpkv_list_def CHUNK_SUFFIX_def
      deleteKey_def hpkv_delete_record_def decimal_0)

text \<open>C6, amended: for a regular file with a metadata record, after a deletion that returns
  success and whose scan for the chunk keys did not fail, neither the metadata key nor any
  chunk key of the path (of any index, so also those below \<open>num_chunks\<close>) is in the store;
  this where the store answers 404 to a deletion only for a key it does not hold.\<close>

theorem C6_cascading_delete:
  assumes "p \<noteq> []" and "p \<noteq> ''/''" and "k \<noteq> []" and "u \<noteq> []"
    and "map_of kv (p @ METADATA_SUFFIX) = Some (MetaRecord m)" and "\<not> isDirectory m"
    and "listAllKeysWithPrefix e kv (p @ CHUNK_SUFFIX) = Inr ks"
    and "\<forall>key. fault e (DeleteRecord key) \<noteq> Some 404"
    and "DELETE e kv \<lparr>path = p, offsetStr = o1, sizeStr = o2, apiKey = k, apiUrl = u, body = b\<rparr>
           = (Succeeded st x, kv')"
  shows "map_of kv' (p @ METADATA_SUFFIX) = None \<and>
         (\<forall>i. map_of kv' (p @ CHUNK_SUFFIX @ decimal i) = None)"
proof -
  let ?keys = "(p @ METADATA_SUFFIX) # ks"
  obtain md where md: "getMetadata e kv p = Inr md" and nd: "\<forall>m'. md = Some m' \<longrightarrow> \<not> isDirectory m'"
    using getMetadata_present[OF assms(5), of e] assms(1-4,6,9)
    by (auto simp: DELETE_def)
  obtain results kv'' where ds: "deleteKeys e kv ?keys = (results, kv'')"
    by (cases "deleteKeys e kv ?keys")
  have "(case List.find (\<lambda>r. r \<noteq> None) results of
           Some (Some (st, err)) \<Rightarrow> (Failed st DeleteKeysFailed, kv'')
         | _ \<Rightarrow> (Succeeded 200 (), kv'')) = (Succeeded st x, kv')"
    using assms(1-4,7,9) md nd ds
    by (cases md) (simp_all add: DELETE_def Let_def)
  from find_results[OF this] have f: "List.find (\<lambda>r. r \<noteq> None) results = None" and kv: "kv' = kv''"
    by simp_all
  from deleteKeys_map[OF ds f assms(8)]
  have m: "map_of kv' = (\<lambda>key. if key \<in> set ?keys then None else map_of kv key)"
    by (simp add: kv)
  have ks: "ks = keys_with_prefix kv (p @ CHUNK_SUFFIX)"
    by (rule listAll_keys[OF assms(7)])
  have "map_of kv' (p @ CHUNK_SUFFIX @ decimal i) = None" for i
  proof (cases "map_of kv (p @ CHUNK_SUFFIX @ decimal i)")
    case None
    then show ?thesis by (simp add: m)
  next
    case (Some v)
    have "startsWith (p @ CHUNK_SUFFIX @ decimal i) (p @ CHUNK_SUFFIX)"
      using startsWith_append[of "p @ CHUNK_SUFFIX" "decimal i"] by simp
    from stored_key_listed[OF Some this] show ?thesis
      by (simp add: m ks)
  qed
  then show ?thesis by (simp add: m)
qed

theorem C6_cascading_delete_witness:
  "\<exists>st x kv'. DELETE \<lparr>fault = (\<lambda>c. None), page_size = 0, now = 0\<rparr>
        [(''/g.__meta__'', MetaRecord \<lparr>mode = 33188, uid = 1000, gid = 1000, size_bytes = 3001,
                atime = 0, mtime = 0, ctime = 0, num_chunks = Some 2\<rparr>),
         (''/g.chunk0'', Text [72, 73]), (''/h.chunk0'', Text [74]), (''/g.chunk1'', Text [75])]
        \<lparr>path = ''/g'', offsetStr = Absent, sizeStr = Absent, apiKey = ''key'', apiUrl = ''url'',
         body = []\<rparr> = (Succeeded st x, kv')
     \<and> map_of kv' (''/g'' @ METADATA_SUFFIX) = None
     \<and> map_of kv' (''/g'' @ CHUNK_SUFFIX @ decimal 0) = None
     \<and> map_of kv' (''/g'' @ CHUNK_SUFFIX @ decimal 1) = None"
proof -
  let ?e = "\<lparr>fault = (\<lambda>c. None), page_size = 0, now = 0\<rparr>"
  let ?m = "\<lparr>mode = 33188, uid = 1000, gid = 1000, size_bytes = 3001,
                atime = 0, mtime = 0, ctime = 0, num_chunks = Some (2::int)\<rparr>"
  let ?kv = "[(''/g.__meta__'', MetaRecord ?m),
         (''/g.chunk0'', Text [72, 73]), (''/h.chunk0'', Text [74]), (''/g.chunk1'', Text [75])]"
  let ?req = "\<lparr>path = ''/g'', offsetStr = Absent, sizeStr = Absent, apiKey = ''key'', apiUrl = ''url'',
         body = []\<rparr>"
  have l: "listAllKeysWithPrefix ?e ?kv (''/g'' @ CHUNK_SUFFIX) = Inr [''/g.chunk0'', ''/g.chunk1'']"
    by (simp add: listAll_no_fault keys_with_prefix_def startsWith_def CHUNK_SUFFIX_def)
  have d: "DELETE ?e ?kv ?req = (Succeeded 200 (), [(''/h.chunk0'', Text [74])])"
    by (simp add: DELETE_def getMetadata_def hpkv_get_record_def METADATA_SUFFIX_def
      with_num_chunks_def isDirectory_def S_IFMT_def S_IFDIR_def Let_def l[unfolded CHUNK_SUFFIX_def, simplified]
      CHUNK_SUFFIX_def deleteKey_def hpkv_delete_record_def)
  have s: "map_of ?kv (''/g'' @ METADATA_SUFFIX) = Some (MetaRecord ?m)"
    by (simp add: METADATA_SUFFIX_def)
  from C6_cascading_delete[of "''/g''" "''key''" "''url''" ?kv ?m ?e "[''/g.chunk0'', ''/g.chunk1'']"
      Absent Absent "[]" 200 "()" "[(''/h.chunk0'', Text [74])]", OF _ _ _ _ s file_mode_not_directory l _ d]
  show ?thesis using d by simp
qed




section \<open>A write of no data\<close>

text \<open>C4: a write of zero-length data succeeds with 0 bytes written and without chunk I/O,
  and afterwards a metadata record of the path exists. The route returns before it looks at
  the metadata: a body that decodes to no bytes, written to a path the store does not know,
  gives 0 bytes written and leaves the store empty, so the path still has no metadata record;
  an empty body is refused with status 400.\<close>

theorem C4_zero_length_write_leaves_no_metadata:
  "Buffer_from_base64 ''='' = []
   \<and> POST \<lparr>fault = (\<lambda>c. None), page_size = 0, now = 0\<rparr> []
        \<lparr>path = ''/new'', offsetStr = Num 0, sizeStr = Absent, apiKey = ''key'', apiUrl = ''url'',
         body = ''=''\<rparr> = (Succeeded 200 0, [])
   \<and> getMetadata \<lparr>fault = (\<lambda>c. None), page_size = 0, now = 0\<rparr> [] ''/new'' = Inr None
   \<and> POST \<lparr>fault = (\<lambda>c. None), page_size = 0, now = 0\<rparr> []
        \<lparr>path = ''/new'', offsetStr = Num 0, sizeStr = Absent, apiKey = ''key'', apiUrl = ''url'',
         body = []\<rparr> = (Failed 400 BodyRequired, [])"
  by (simp add: POST_def Buffer_from_base64_def List.map_filter_def getMetadata_def
      hpkv_get_record_def)

section \<open>Listing a directory that holds a subdirectory\<close>




section \<open>Chunk keys and ASCII text\<close>

lemma digit_char_inj: "a < 10 \<Longrightarrow> b < 10 \<Longrightarrow> digit_char a = digit_char b \<Longrightarrow> a = b"
proof -
  assume a: "a < 10" and b: "b < 10" and e: "digit_char a = digit_char b"
  have d: "distinct ''0123456789''" by simp
  have "length ''0123456789'' = 10" by simp
  with a b e d show ?thesis
    unfolding digit_char_def by (metis nth_eq_iff_index_eq)
qed

lemma decimal_length: "0 < length (decimal n)"
  by (subst decimal.simps) simp

lemma decimal_inj: "decimal n = decimal m \<Longrightarrow> n = m"
proof (induction n arbitrary: m rule: decimal.induct)
  case (1 n)
  show ?case
  proof (cases "n < 10")
    case True
    then have n: "decimal n = [digit_char n]" by (subst decimal.simps) simp
    show ?thesis
    proof (cases "m < 10")
      case m: True
      then have "decimal m = [digit_char m]" by (subst decimal.simps) simp
      with n "1.prems" True m show ?thesis by (auto dest: digit_char_inj)
    next
      case False
      then have "decimal m = decimal (m div 10) @ [digit_char (m mod 10)]"
        by (subst decimal.simps) simp
      with n "1.prems" decimal_length[of "m div 10"] show ?thesis by (cases "decimal (m div 10)") auto
    qed
  next
    case False
    then have n: "decimal n = decimal (n div 10) @ [digit_char (n mod 10)]"
      by (subst decimal.simps) simp
    show ?thesis
    proof (cases "m < 10")
      case True
      then have "decimal m = [digit_char m]" by (subst decimal.simps) simp
      with n "1.prems" decimal_length[of "n div 10"] show ?thesis by (cases "decimal (n div 10)") auto
    next
      case m: False
      then have "decimal m = decimal (m div 10) @ [digit_char (m mod 10)]"
        by (subst decimal.simps) simp
      with n "1.prems" have a: "decimal (n div 10) = decimal (m div 10)"
        and b: "digit_char (n mod 10) = digit_char (m mod 10)" by simp_all
      from "1.IH"[OF False a] have "n div 10 = m div 10" .
      moreover from b have "n mod 10 = m mod 10"
        using digit_char_inj[of "n mod 10" "m mod 10"] by simp
      ultimately show ?thesis by (metis div_mult_mod_eq)
    qed
  qed
qed

lemma decimal_eq_iff [simp]: "(decimal i = decimal j) = (i = j)"
  by (auto dest: decimal_inj)

lemma chunk_key_inj [simp]: "(p @ CHUNK_SUFFIX @ decimal i = p @ CHUNK_SUFFIX @ decimal j) = (i = j)"
  by (auto dest: decimal_inj)

lemma chunk_key_not_metadata_key [simp]:
  "p @ CHUNK_SUFFIX @ decimal i \<noteq> p @ METADATA_SUFFIX"
  "p @ METADATA_SUFFIX \<noteq> p @ CHUNK_SUFFIX @ decimal i"
  by (simp_all add: CHUNK_SUFFIX_def METADATA_SUFFIX_def)

lemma chunk_suffix_not_metadata_suffix [simp]:
  "CHUNK_SUFFIX @ decimal i \<noteq> METADATA_SUFFIX"
  "METADATA_SUFFIX \<noteq> CHUNK_SUFFIX @ decimal i"
  by (simp_all add: CHUNK_SUFFIX_def METADATA_SUFFIX_def)

lemma ascii_unat: "(b :: byte) < 0x80 \<Longrightarrow> unat b \<le> 0x7F"
  by (simp add: word_less_nat_alt)

lemma utf8_run_ascii:
  "ascii bs \<Longrightarrow> utf8_run Start (bs @ rest) = map ucast bs @ utf8_run Start rest"
proof (induction bs)
  case Nil
  then show ?case by simp
next
  case (Cons b bs)
  then have "unat b \<le> 0x7F" and "ascii bs"
    by (simp_all add: ascii_def ascii_unat)
  with Cons.IH show ?case
    by (simp add: utf8_start_def)
qed

lemma toString_ascii: "ascii bs \<Longrightarrow> Buffer_toString_utf8 bs = map ucast bs"
  using utf8_run_ascii[of bs "[]"] by (simp add: Buffer_toString_utf8_def)

lemma toString_ascii_append:
  "ascii bs \<Longrightarrow> Buffer_toString_utf8 (bs @ rest) = map ucast bs @ Buffer_toString_utf8 rest"
  by (simp add: Buffer_toString_utf8_def utf8_run_ascii)

lemma utf8_encode_ascii_unit:
  fixes b :: byte
  assumes "b < 0x80"
  shows "utf8_bytes (unat (ucast b :: 16 word)) = [b]"
    and "\<not> (0xD800 \<le> unat (ucast b :: 16 word))"
proof -
  have "unat b < 2 ^ 16"
    using unsigned_less[of b, where 'a = nat] by simp
  then have u: "unat (ucast b :: 16 word) = unat b"
    by (simp add: unsigned_ucast_eq take_bit_nat_eq_self)
  have "unat b < 0x80" using assms by (simp add: word_less_nat_alt)
  then show "utf8_bytes (unat (ucast b :: 16 word)) = [b]" and "\<not> (0xD800 \<le> unat (ucast b :: 16 word))"
    by (simp_all add: u utf8_bytes_def)
qed

lemma utf8_encode_ascii: "ascii bs \<Longrightarrow> utf8_encode (map ucast bs) = bs"
proof (induction bs)
  case Nil
  then show ?case by simp
next
  case (Cons b bs)
  then have b: "b < 0x80" and bs: "ascii bs" by (simp_all add: ascii_def)
  show ?case
  proof (cases bs)
    case Nil
    with utf8_encode_ascii_unit[OF b] show ?thesis by simp
  next
    case (Cons c cs)
    with utf8_encode_ascii_unit[OF b] Cons.IH[OF bs] show ?thesis by simp
  qed
qed

section \<open>The buffer of one chunk in a write\<close>

lemma newChunk_of_eq:
  assumes "ws < we" and "cwo + (we - ws) \<le> length D"
  shows "newChunk_of ex D ws we cwo =
         Some (take ws ex @ replicate (ws - length ex) 0 @ take (we - ws) (drop cwo D) @ drop we ex)"
proof -
  define n where "n = we - ws"
  define size' where "size' = max (length ex) we"
  have n: "0 < n" "ws + n = we" using assms(1) by (simp_all add: n_def)
  define c1 where "c1 = take ws ex @ replicate (size' - min ws (length ex)) (0::byte)"
  have c1_len: "length c1 = size'"
    by (auto simp: c1_def size'_def)
  have step1: "(if ws > 0
            then Buffer_copy ex (Buffer_alloc size') 0 0 (min ws (length ex))
            else Some (Buffer_alloc size')) = Some c1"
    by (auto simp: Buffer_copy_def Buffer_alloc_def c1_def size'_def Let_def min_def max_def
        simp flip: replicate_add)
  define c2 where "c2 = take ws c1 @ take n (drop cwo D) @ drop we c1"
  have step2: "Buffer_copy D c1 ws cwo (cwo + n) = Some c2"
    using assms n c1_len
    by (auto simp: Buffer_copy_def c2_def size'_def Let_def min_def max_def n_def)
  have c2_len: "length c2 = size'"
    using assms n c1_len by (auto simp: c2_def size'_def n_def)
  define c3 where "c3 = take ws ex @ replicate (ws - length ex) 0 @ take n (drop cwo D) @ drop we ex"
  have tk: "take ws c1 = take ws ex @ replicate (ws - length ex) 0"
    using assms(1) by (auto simp: c1_def size'_def min_def max_def)
  have step3: "(if we < length ex then Buffer_copy ex c2 we we (length ex) else Some c2) = Some c3"
  proof (cases "we < length ex")
    case True
    then have "take we c2 = take ws c1 @ take n (drop cwo D)"
      using assms n c1_len by (auto simp: c2_def n_def)
    with True c2_len show ?thesis
      by (auto simp: Buffer_copy_def c3_def size'_def Let_def tk)
  next
    case False
    then have "drop we c1 = []" using c1_len by (simp add: size'_def)
    with False show ?thesis by (simp add: c2_def c3_def tk)
  qed
  show ?thesis
    unfolding newChunk_of_def Let_def
    unfolding size'_def[symmetric] n_def[symmetric]
    by (simp only: step1 Option.bind.simps step2 step3 c3_def)
qed

lemma MAX_CHUNK_SIZE_pos [simp]: "0 < MAX_CHUNK_SIZE"
  by (simp add: MAX_CHUNK_SIZE_def)

lemma chunk_window:
  fixes M :: nat
  assumes "0 < M" and "0 < n" and "offset div M \<le> i" and "i \<le> (offset + n - 1) div M"
  shows "offset - i * M < min M (offset + n - i * M)"
    and "(i * M - offset) + (min M (offset + n - i * M) - (offset - i * M)) \<le> n"
    and "i < (offset + n - 1) div M \<Longrightarrow>
         (i * M - offset) + (min M (offset + n - i * M) - (offset - i * M)) = Suc i * M - offset"
    and "i * M < offset + n"
    and "offset < i * M + M"
proof -
  have hi: "i * M \<le> offset + n - 1"
    using assms(1,4) by (simp add: less_eq_div_iff_mult_less_eq)
  have "offset div M < Suc i" using assms(3) by simp
  then have lo: "offset < i * M + M"
    using assms(1) by (simp add: div_less_iff_less_mult)
  show "offset - i * M < min M (offset + n - i * M)"
    using hi lo assms(1,2) by (auto simp: min_def)
  show "(i * M - offset) + (min M (offset + n - i * M) - (offset - i * M)) \<le> n"
    using hi lo assms(1,2) by (auto simp: min_def)
  show "i * M < offset + n" using hi assms(2) by simp
  show "offset < i * M + M" by (rule lo)
  assume "i < (offset + n - 1) div M"
  then have "Suc i \<le> (offset + n - 1) div M" by simp
  then have "i * M + M \<le> offset + n - 1"
    using assms(1) by (simp add: less_eq_div_iff_mult_less_eq)
  then show "(i * M - offset) + (min M (offset + n - i * M) - (offset - i * M)) = Suc i * M - offset"
    using lo assms(1,2) by (auto simp: min_def)
qed

lemma getChunk_existing:
  assumes "getChunk e kv p i = Inr s" and "no_false_404 e"
  shows "(case s of None \<Rightarrow> Buffer_alloc 0
          | Some str \<Rightarrow> if str = [] then Buffer_alloc 0 else Buffer_from_utf8 str)
         = existing_bytes kv p i"
  using assms
  by (auto simp: getChunk_def hpkv_get_record_def existing_bytes_def Buffer_alloc_def
      Buffer_from_utf8_def no_false_404_def split: option.splits if_splits)

lemma writeChunk_map:
  "writeChunk e kv p i s = (None, kv') \<Longrightarrow>
   map_of kv' = (map_of kv)(p @ CHUNK_SUFFIX @ decimal i \<mapsto> Text s)"
  by (auto simp: writeChunk_def hpkv_post_record_def update_conv' split: option.splits)

lemma write_chunks_step:
  assumes "D \<noteq> []" and "offset div MAX_CHUNK_SIZE \<le> i"
    and "i \<le> (offset + length D - 1) div MAX_CHUNK_SIZE"
    and "no_false_404 e"
    and "write_chunks e p offset D endChunk i (i * MAX_CHUNK_SIZE - offset) kv = (None, kv')"
    and "i \<le> endChunk"
  shows "\<exists>kv1. map_of kv1 = (map_of kv)(p @ CHUNK_SUFFIX @ decimal i \<mapsto>
                    Text (Buffer_toString_utf8 (patched offset D i (existing_bytes kv p i))))
           \<and> write_chunks e p offset D endChunk (Suc i)
                (i * MAX_CHUNK_SIZE - offset +
                 (min MAX_CHUNK_SIZE (offset + length D - i * MAX_CHUNK_SIZE) - (offset - i * MAX_CHUNK_SIZE)))
                kv1 = (None, kv')"
proof -
  let ?M = MAX_CHUNK_SIZE
  let ?ws = "offset - i * ?M"
  let ?we = "min ?M (offset + length D - i * ?M)"
  have n: "0 < length D" using assms(1) by simp
  note w = chunk_window[OF MAX_CHUNK_SIZE_pos n assms(2,3)]
  from assms(5,6) obtain s where g: "getChunk e kv p i = Inr s"
    by (subst (asm) write_chunks.simps) (auto simp: Let_def split: sum.splits)
  have nc: "newChunk_of (existing_bytes kv p i) D ?ws ?we (i * ?M - offset)
            = Some (patched offset D i (existing_bytes kv p i))"
    using newChunk_of_eq[OF w(1) w(2)] by (simp add: patched_def Let_def)
  from assms(5,6) g obtain kv1 where
    wc: "writeChunk e kv p i (Buffer_toString_utf8 (patched offset D i (existing_bytes kv p i))) = (None, kv1)"
    and rec: "write_chunks e p offset D endChunk (Suc i) (i * ?M - offset + (?we - ?ws)) kv1 = (None, kv')"
    by (subst (asm) write_chunks.simps)
       (auto simp: Let_def getChunk_existing[OF g assms(4)] nc split: prod.splits option.splits)
  from writeChunk_map[OF wc] rec show ?thesis by blast
qed

lemma write_chunks_done:
  "endChunk < i \<Longrightarrow> write_chunks e p offset D endChunk i c kv = (None, kv)"
  by (subst write_chunks.simps) simp

lemma write_chunks_effect:
  assumes "D \<noteq> []" and "no_false_404 e"
    and "endChunk = (offset + length D - 1) div MAX_CHUNK_SIZE"
  shows "write_chunks e p offset D endChunk i (i * MAX_CHUNK_SIZE - offset) kv = (None, kv') \<Longrightarrow>
         offset div MAX_CHUNK_SIZE \<le> i \<Longrightarrow> i \<le> Suc endChunk \<Longrightarrow>
         (\<forall>j. i \<le> j \<and> j \<le> endChunk \<longrightarrow>
            map_of kv' (p @ CHUNK_SUFFIX @ decimal j) =
              Some (Text (Buffer_toString_utf8 (patched offset D j (existing_bytes kv p j)))))
         \<and> (\<forall>k. (\<forall>j. i \<le> j \<and> j \<le> endChunk \<longrightarrow> k \<noteq> p @ CHUNK_SUFFIX @ decimal j) \<longrightarrow>
            map_of kv' k = map_of kv k)"
proof (induction "Suc endChunk - i" arbitrary: i kv)
  case 0
  then have "endChunk < i" by simp
  with "0.prems"(1) write_chunks_done[of endChunk i e p offset D _ kv] have "kv' = kv" by simp
  with \<open>endChunk < i\<close> show ?case by auto
next
  case (Suc d)
  let ?M = MAX_CHUNK_SIZE
  let ?key = "\<lambda>j. p @ CHUNK_SUFFIX @ decimal j"
  let ?new = "\<lambda>kv j. Text (Buffer_toString_utf8 (patched offset D j (existing_bytes kv p j)))"
  from Suc.hyps(2) have i: "i \<le> endChunk" by simp
  then have i': "i \<le> (offset + length D - 1) div ?M" by (simp add: assms(3))
  from write_chunks_step[OF assms(1) Suc.prems(2) i' assms(2) Suc.prems(1) i]
  obtain kv1 where m1: "map_of kv1 = (map_of kv)(?key i \<mapsto> ?new kv i)"
    and rec: "write_chunks e p offset D endChunk (Suc i)
                (i * ?M - offset + (min ?M (offset + length D - i * ?M) - (offset - i * ?M)))
                kv1 = (None, kv')"
    by blast
  have ex1: "existing_bytes kv1 p j = existing_bytes kv p j" if "j \<noteq> i" for j
    using that by (simp add: existing_bytes_def m1)
  show ?case
  proof (cases "i = endChunk")
    case True
    with rec write_chunks_done[of endChunk "Suc i" e p offset D _ kv1] have "kv' = kv1" by simp
    with m1 True show ?thesis by auto
  next
    case False
    with i have lt: "i < (offset + length D - 1) div ?M" by (simp add: assms(3))
    have n: "0 < length D" using assms(1) by simp
    have eq: "i * ?M - offset + (min ?M (offset + length D - i * ?M) - (offset - i * ?M))
              = Suc i * ?M - offset"
      by (rule chunk_window(3)[OF MAX_CHUNK_SIZE_pos n Suc.prems(2) i' lt])
    have rec': "write_chunks e p offset D endChunk (Suc i) (Suc i * ?M - offset) kv1 = (None, kv')"
      using rec unfolding eq .
    have d: "d = Suc endChunk - Suc i" using Suc.hyps(2) by simp
    have lo: "offset div ?M \<le> Suc i" using Suc.prems(2) by simp
    have hi: "Suc i \<le> Suc endChunk" using i by simp
    note IH = Suc.hyps(1)[OF d rec' lo hi]
    show ?thesis
    proof (intro conjI allI impI)
      fix j assume j: "i \<le> j \<and> j \<le> endChunk"
      show "map_of kv' (?key j) = Some (?new kv j)"
      proof (cases "j = i")
        case True
        have "\<forall>j'. Suc i \<le> j' \<and> j' \<le> endChunk \<longrightarrow> ?key i \<noteq> ?key j'" by auto
        with IH have "map_of kv' (?key i) = map_of kv1 (?key i)" by blast
        with True m1 show ?thesis by simp
      next
        case False
        with j have "Suc i \<le> j \<and> j \<le> endChunk" by simp
        with IH have "map_of kv' (?key j) = Some (?new kv1 j)" by blast
        with ex1[OF False] show ?thesis by simp
      qed
    next
      fix k assume k: "\<forall>j. i \<le> j \<and> j \<le> endChunk \<longrightarrow> k \<noteq> ?key j"
      then have "\<forall>j. Suc i \<le> j \<and> j \<le> endChunk \<longrightarrow> k \<noteq> ?key j" by auto
      with IH have "map_of kv' k = map_of kv1 k" by blast
      moreover from k i have "k \<noteq> ?key i" by auto
      ultimately show "map_of kv' k = map_of kv k" by (simp add: m1)
    qed
  qed
qed

section \<open>The loop of the read route over chunks that are present\<close>

lemma chunk_window_last:
  fixes M :: nat
  assumes "0 < M" and "0 < n" and "offset div M \<le> i" and "i = (offset + n - 1) div M"
  shows "offset + n - i * M \<le> M"
    and "(i * M - offset) + (min M (offset + n - i * M) - (offset - i * M)) = n"
proof -
  have hi: "i * M \<le> offset + n - 1"
    using assms(1,4) by (simp add: less_eq_div_iff_mult_less_eq)
  have "(offset + n - 1) div M < Suc i" using assms(4) by simp
  then have up: "offset + n - 1 < i * M + M"
    using assms(1) by (simp add: div_less_iff_less_mult)
  have "offset div M < Suc i" using assms(3) by simp
  then have lo: "offset < i * M + M"
    using assms(1) by (simp add: div_less_iff_less_mult)
  show "offset + n - i * M \<le> M" using up assms(2) by simp
  show "(i * M - offset) + (min M (offset + n - i * M) - (offset - i * M)) = n"
    using hi up lo assms(1,2) by (auto simp: min_def)
qed

lemma take_split:
  "a + b = c \<Longrightarrow> map f (take a xs) @ map f (take b (drop a xs)) = map f (take c xs)"
  by (auto simp: take_add simp flip: map_append)

lemma substring_take_drop:
  "a \<le> b \<Longrightarrow> b \<le> length s \<Longrightarrow> substring s a b = drop a (take b s)"
  by (simp add: substring_def Let_def min_def max_def drop_take)

lemma read_chunks_iter:
  assumes "i \<le> endChunk" and "int i < numChunks"
    and "getChunk_read e kv p i = (Some c, None, 200)"
    and "offset - i * MAX_CHUNK_SIZE < min (length c) (offset + readSize - i * MAX_CHUNK_SIZE)"
  shows "read_chunks e kv p offset readSize numChunks endChunk i comb br =
         (if readSize \<le> br + (min (length c) (offset + readSize - i * MAX_CHUNK_SIZE)
                                  - (offset - i * MAX_CHUNK_SIZE))
          then Inr (comb @ substring c (offset - i * MAX_CHUNK_SIZE)
                            (min (length c) (offset + readSize - i * MAX_CHUNK_SIZE)))
          else read_chunks e kv p offset readSize numChunks endChunk (Suc i)
                 (comb @ substring c (offset - i * MAX_CHUNK_SIZE)
                            (min (length c) (offset + readSize - i * MAX_CHUNK_SIZE)))
                 (br + (min (length c) (offset + readSize - i * MAX_CHUNK_SIZE)
                          - (offset - i * MAX_CHUNK_SIZE))))"
proof -
  have pos: "0 < min (length c) (offset + readSize - i * MAX_CHUNK_SIZE) - (offset - i * MAX_CHUNK_SIZE)"
    using assms(4) by simp
  show ?thesis
    by (subst read_chunks.simps) (simp only: assms(1,2,3) pos Let_def max_0L if_True
        if_cancel split_conv option.case simp_thms Suc_eq_plus1)
qed

lemma read_chunks_content:
  fixes F :: "byte list"
  assumes "0 < readSize" and "offset + readSize \<le> length F"
    and "endChunk = (offset + readSize - 1) div MAX_CHUNK_SIZE"
    and "\<forall>c. fault e c = None"
    and "int endChunk < numChunks"
    and "\<forall>j. offset div MAX_CHUNK_SIZE \<le> j \<and> j \<le> endChunk \<longrightarrow> chunk_shows kv p offset readSize F j"
  shows "offset div MAX_CHUNK_SIZE \<le> i \<Longrightarrow> i \<le> endChunk \<Longrightarrow>
         read_chunks e kv p offset readSize numChunks endChunk i
           (map ucast (take (i * MAX_CHUNK_SIZE - offset) (drop offset F)))
           (i * MAX_CHUNK_SIZE - offset)
         = Inr (map ucast (take readSize (drop offset F)))"
proof (induction "endChunk - i" arbitrary: i)
  case (0 i)
  let ?M = MAX_CHUNK_SIZE
  from 0 have ie: "i = endChunk" by simp
  then have i': "i = (offset + readSize - 1) div ?M" by (simp add: assms(3))
  have i'': "i \<le> (offset + readSize - 1) div ?M" using i' by simp
  note w = chunk_window[OF MAX_CHUNK_SIZE_pos assms(1) "0.prems"(1) i'']
  note wl = chunk_window_last[OF MAX_CHUNK_SIZE_pos assms(1) "0.prems"(1) i']
  let ?L = "i * ?M - offset"
  let ?rs = "offset - i * ?M"
  let ?re = "min ?M (offset + readSize - i * ?M)"
  from assms(6) "0.prems" obtain v where
    v: "map_of kv (p @ CHUNK_SUFFIX @ decimal i) = Some v"
    and len: "?re \<le> length (value_text v)"
    and tk: "take ?re (value_text v) = map ucast (take ?re (drop (i * ?M) F))"
    unfolding chunk_shows_def by blast
  have g: "getChunk_read e kv p i = (Some (value_text v), None, 200)"
    using v assms(4) by (simp add: getChunk_read_def hpkv_get_record_def)
  have re: "min (length (value_text v)) (offset + readSize - i * ?M) = ?re"
    using len wl(1) by (auto simp: min_def)
  have pos: "i * ?M + ?rs = offset + ?L" using w(5) by simp
  have "?rs + i * ?M = ?L + offset" by simp
  then have dd: "drop ?rs (drop (i * ?M) F) = drop ?L (drop offset F)"
    by (simp only: drop_drop)
  have piece: "substring (value_text v) ?rs ?re = map ucast (take (?re - ?rs) (drop ?L (drop offset F)))"
    using w(1) len
    by (simp add: substring_take_drop tk drop_map drop_take dd del: drop_drop)
  have app: "map ucast (take ?L (drop offset F)) @ substring (value_text v) ?rs ?re
             = map ucast (take readSize (drop offset F))"
    unfolding piece by (rule take_split[OF wl(2)])
  have small: "int i < numChunks" using ie assms(5) by simp
  have stop: "readSize \<le> ?L + (?re - ?rs)" using wl(2) by simp
  show ?case
    unfolding read_chunks_iter[OF "0.prems"(2) small g w(1)[folded re]]
    unfolding re
    by (simp only: stop if_True app)
next
  case (Suc d i)
  let ?M = MAX_CHUNK_SIZE
  from Suc.hyps(2) have lt: "i < endChunk" by simp
  then have lt': "i < (offset + readSize - 1) div ?M" by (simp add: assms(3))
  have i'': "i \<le> (offset + readSize - 1) div ?M" using lt' by simp
  note w = chunk_window[OF MAX_CHUNK_SIZE_pos assms(1) Suc.prems(1) i'']
  let ?L = "i * ?M - offset"
  let ?rs = "offset - i * ?M"
  let ?re = "min ?M (offset + readSize - i * ?M)"
  from assms(6) Suc.prems lt' obtain v where
    v: "map_of kv (p @ CHUNK_SUFFIX @ decimal i) = Some v"
    and len: "?re \<le> length (value_text v)"
    and full: "length (value_text v) = ?M"
    and tk: "take ?re (value_text v) = map ucast (take ?re (drop (i * ?M) F))"
    unfolding chunk_shows_def by blast
  have g: "getChunk_read e kv p i = (Some (value_text v), None, 200)"
    using v assms(4) by (simp add: getChunk_read_def hpkv_get_record_def)
  have "Suc i \<le> (offset + readSize - 1) div ?M" using lt' by simp
  then have nxt: "i * ?M + ?M \<le> offset + readSize - 1"
    by (simp add: less_eq_div_iff_mult_less_eq)
  have re: "min (length (value_text v)) (offset + readSize - i * ?M) = ?re"
    by (simp add: full)
  have pos: "i * ?M + ?rs = offset + ?L" using w(5) by simp
  have "?rs + i * ?M = ?L + offset" by simp
  then have dd: "drop ?rs (drop (i * ?M) F) = drop ?L (drop offset F)"
    by (simp only: drop_drop)
  have piece: "substring (value_text v) ?rs ?re = map ucast (take (?re - ?rs) (drop ?L (drop offset F)))"
    using w(1) len
    by (simp add: substring_take_drop tk drop_map drop_take dd del: drop_drop)
  have sum: "?L + (?re - ?rs) = Suc i * ?M - offset" by (rule w(3)[OF lt'])
  have app: "map ucast (take ?L (drop offset F)) @ substring (value_text v) ?rs ?re
             = map ucast (take (Suc i * ?M - offset) (drop offset F))"
    unfolding piece by (rule take_split[OF sum])
  have more: "\<not> readSize \<le> Suc i * ?M - offset"
    using nxt assms(1) by simp
  have d: "d = endChunk - Suc i" using Suc.hyps(2) by simp
  have IH: "read_chunks e kv p offset readSize numChunks endChunk (Suc i)
           (map ucast (take (Suc i * ?M - offset) (drop offset F))) (Suc i * ?M - offset)
         = Inr (map ucast (take readSize (drop offset F)))"
    using Suc.hyps(1)[OF d] Suc.prems(1) lt by simp
  have small: "int i < numChunks" using lt assms(5) by simp
  have more': "\<not> readSize \<le> ?L + (?re - ?rs)"
    using more unfolding sum .
  show ?case
    unfolding read_chunks_iter[OF Suc.prems(2) small g w(1)[folded re]]
    unfolding re
    by (simp only: more' if_False) (simp only: app sum IH)
qed

lemma ascii_take: "ascii xs \<Longrightarrow> ascii (take n xs)"
  by (auto simp: ascii_def dest: in_set_takeD)

lemma ascii_drop: "ascii xs \<Longrightarrow> ascii (drop n xs)"
  by (auto simp: ascii_def dest: in_set_dropD)

lemma ascii_append [simp]: "ascii (xs @ ys) = (ascii xs \<and> ascii ys)"
  by (auto simp: ascii_def)

lemma ascii_Nil [simp]: "ascii []"
  by (simp add: ascii_def)

lemma div_less_ceil_chunks:
  assumes "int a < s"
  shows "int (a div MAX_CHUNK_SIZE) < ceil_chunks s"
proof -
  have "real (a div MAX_CHUNK_SIZE) = of_int \<lfloor>real a / real MAX_CHUNK_SIZE\<rfloor>"
    by (simp add: floor_divide_of_nat_eq)
  also have "\<dots> \<le> real a / real MAX_CHUNK_SIZE"
    by (rule of_int_floor_le)
  also have "\<dots> < real_of_int s / real MAX_CHUNK_SIZE"
    using assms by (simp add: divide_strict_right_mono)
  finally show ?thesis
    by (simp add: ceil_chunks_def less_ceiling_iff)
qed

lemma read_file_content:
  fixes F :: "byte list"
  assumes "map_of kv (p @ METADATA_SUFFIX) = Some (MetaRecord m)" and "\<not> isDirectory m"
    and "num_chunks m = None \<or> num_chunks m = Some (ceil_chunks (size_bytes m))"
    and "int offset < size_bytes m" and "0 < sz"
    and "readSize = nat (min (int sz) (size_bytes m - int offset))"
    and "offset + readSize \<le> length F" and "ascii F"
    and "\<forall>c. fault e c = None"
    and "\<forall>j. offset div MAX_CHUNK_SIZE \<le> j \<and> j \<le> (offset + readSize - 1) div MAX_CHUNK_SIZE
           \<longrightarrow> chunk_shows kv p offset readSize F j"
  shows "read_file e kv p offset sz = Succeeded 200 (take readSize (drop offset F))"
proof -
  let ?M = MAX_CHUNK_SIZE
  let ?end = "(offset + readSize - 1) div ?M"
  let ?start = "offset div ?M"
  have rs: "0 < readSize" using assms(4,5,6) by simp
  have g: "getMetadata_read e kv p = Inr (with_num_chunks m)"
    using assms(1,9) by (simp add: getMetadata_read_def hpkv_get_record_def)
  have le: "int readSize \<le> size_bytes m - int offset"
    using assms(4,5,6) by simp
  have "int (offset + readSize - 1) = int offset + int readSize - 1"
    using rs by (simp add: of_nat_diff)
  with le have "int (offset + readSize - 1) < size_bytes m"
    by linarith
  then have cnt: "int ?end < ceil_chunks (size_bytes m)"
    by (rule div_less_ceil_chunks)
  have nc: "(case num_chunks (with_num_chunks m) of Some n \<Rightarrow> n | None \<Rightarrow> ceil_chunks (size_bytes m))
            = ceil_chunks (size_bytes m)"
    using assms(3) by (auto simp: with_num_chunks_def)
  have se: "?start \<le> ?end"
    using rs by (intro div_le_mono) simp
  have z: "?start * ?M - offset = 0"
    by simp
  have loop: "read_chunks e kv p offset readSize (ceil_chunks (size_bytes m)) ?end ?start [] 0
              = Inr (map ucast (take readSize (drop offset F)))"
    using read_chunks_content[OF rs assms(7) refl assms(9) cnt assms(10) order_refl se]
    unfolding z by simp
  have len: "length (take readSize (drop offset F)) = readSize"
    using assms(7) by simp
  have enc: "utf8_encode (map ucast (take readSize (drop offset F))) = take readSize (drop offset F)"
    using assms(8) by (intro utf8_encode_ascii ascii_take ascii_drop)
  have dir: "\<not> isDirectory (with_num_chunks m)"
    using assms(2) by (simp add: isDirectory_def with_num_chunks_def)
  have sz': "size_bytes (with_num_chunks m) = size_bytes m"
    by (simp add: with_num_chunks_def)
  have nle: "\<not> size_bytes m \<le> int offset" using assms(4) by simp
  have nz: "\<not> readSize \<le> 0" using rs by simp
  show ?thesis
    unfolding read_file_def g
    apply (simp only: sum.case Let_def dir if_False sz' nle assms(6)[symmetric] nz nc loop)
    apply (simp only: length_map len less_irrefl if_False enc)
    done
qed

section \<open>The effect of a successful write\<close>

lemma getMetadata_cases:
  assumes "getMetadata e kv p = Inr found" and "no_false_404 e"
  shows "(found = None \<and> map_of kv (p @ METADATA_SUFFIX) = None)
       \<or> (\<exists>r. found = Some (with_num_chunks r) \<and> map_of kv (p @ METADATA_SUFFIX) = Some (MetaRecord r))"
  using assms
  by (auto simp: getMetadata_def hpkv_get_record_def METADATA_SUFFIX_def no_false_404_def
      split: option.splits if_splits kv_value.splits)

lemma writeMetadata_map:
  "writeMetadata e kv p m = (None, kv') \<Longrightarrow>
   map_of kv' = (map_of kv)(p @ METADATA_SUFFIX \<mapsto> MetaRecord m)"
  by (auto simp: writeMetadata_def hpkv_post_record_def update_conv' split: option.splits)

lemma default_mode_not_directory: "DEFAULT_FILE_MODE AND S_IFMT \<noteq> S_IFDIR"
  by (simp add: DEFAULT_FILE_MODE_def S_IFMT_def S_IFDIR_def)

lemma write_file_effect:
  assumes "write_file e kv p offset D = (Succeeded st w, kv')" and "D \<noteq> []" and "no_false_404 e"
  shows "\<exists>m'. map_of kv' (p @ METADATA_SUFFIX) = Some (MetaRecord m') \<and> \<not> isDirectory m'
            \<and> num_chunks m' = Some (ceil_chunks (size_bytes m'))
            \<and> size_bytes m' = max (stored_size kv p) (int (offset + length D))"
    and "\<forall>j. offset div MAX_CHUNK_SIZE \<le> j \<and> j \<le> (offset + length D - 1) div MAX_CHUNK_SIZE \<longrightarrow>
            map_of kv' (p @ CHUNK_SUFFIX @ decimal j) =
              Some (Text (Buffer_toString_utf8 (patched offset D j (existing_bytes kv p j))))"
    and "\<forall>j. \<not> (offset div MAX_CHUNK_SIZE \<le> j \<and> j \<le> (offset + length D - 1) div MAX_CHUNK_SIZE) \<longrightarrow>
            map_of kv' (p @ CHUNK_SUFFIX @ decimal j) = map_of kv (p @ CHUNK_SUFFIX @ decimal j)"
    and "w = length D"
proof -
  let ?M = MAX_CHUNK_SIZE
  let ?start = "offset div ?M"
  let ?end = "(offset + length D - 1) div ?M"
  from assms(1) obtain found where g: "getMetadata e kv p = Inr found"
    by (auto simp: write_file_def split: sum.splits prod.splits)
  define metadata where "metadata = (case found of
       None \<Rightarrow> \<lparr>mode = DEFAULT_FILE_MODE, uid = 1000, gid = 1000, size_bytes = 0,
                 atime = now e, mtime = now e, ctime = now e, num_chunks = Some 0\<rparr>
     | Some m \<Rightarrow> m)"
  from assms(1) g have nd: "\<not> (found \<noteq> None \<and> isDirectory metadata)"
    by (auto simp: write_file_def metadata_def Let_def split: if_splits)
  from assms(1) g nd have "\<exists>kv1 metadata'.
      write_chunks e p offset D ?end ?start 0 kv = (None, kv1)
      \<and> writeMetadata e kv1 p metadata' = (None, kv')
      \<and> size_bytes metadata' = max (size_bytes metadata) (int (offset + length D))
      \<and> num_chunks metadata' = Some (ceil_chunks (size_bytes metadata'))
      \<and> mode metadata' = mode metadata \<and> w = length D"
    by (auto simp: write_file_def metadata_def Let_def
        split: prod.splits option.splits if_splits)
  then obtain kv1 metadata' where
    wc: "write_chunks e p offset D ?end ?start 0 kv = (None, kv1)"
    and wm: "writeMetadata e kv1 p metadata' = (None, kv')"
    and sz': "size_bytes metadata' = max (size_bytes metadata) (int (offset + length D))"
    and nc': "num_chunks metadata' = Some (ceil_chunks (size_bytes metadata'))"
    and md': "mode metadata' = mode metadata" and w: "w = length D"
    by blast
  have z: "?start * ?M - offset = 0" by simp
  have se: "?start \<le> Suc ?end"
    by (rule le_SucI, rule div_le_mono) (use assms(2) in \<open>cases D; simp\<close>)
  note eff = write_chunks_effect[where i = "?start" and kv = kv and kv' = kv1 and p = p
      and offset = offset, OF assms(2,3) refl, unfolded z, OF wc order_refl se]
  note mm = writeMetadata_map[OF wm]
  show "w = length D" by (rule w)
  show "\<forall>j. ?start \<le> j \<and> j \<le> ?end \<longrightarrow>
            map_of kv' (p @ CHUNK_SUFFIX @ decimal j) =
              Some (Text (Buffer_toString_utf8 (patched offset D j (existing_bytes kv p j))))"
    using eff by (simp add: mm)
  show "\<forall>j. \<not> (?start \<le> j \<and> j \<le> ?end) \<longrightarrow>
            map_of kv' (p @ CHUNK_SUFFIX @ decimal j) = map_of kv (p @ CHUNK_SUFFIX @ decimal j)"
  proof (intro allI impI)
    fix j assume j: "\<not> (?start \<le> j \<and> j \<le> ?end)"
    then have "\<forall>j'. ?start \<le> j' \<and> j' \<le> ?end \<longrightarrow>
                p @ CHUNK_SUFFIX @ decimal j \<noteq> p @ CHUNK_SUFFIX @ decimal j'"
      by auto
    with eff have "map_of kv1 (p @ CHUNK_SUFFIX @ decimal j) = map_of kv (p @ CHUNK_SUFFIX @ decimal j)"
      by blast
    then show "map_of kv' (p @ CHUNK_SUFFIX @ decimal j) = map_of kv (p @ CHUNK_SUFFIX @ decimal j)"
      by (simp add: mm)
  qed
  have sz: "size_bytes metadata = stored_size kv p" and dir: "\<not> isDirectory metadata"
    using getMetadata_cases[OF g assms(3)] nd default_mode_not_directory
    by (auto simp: metadata_def stored_size_def isDirectory_def)
  have "map_of kv' (p @ METADATA_SUFFIX) = Some (MetaRecord metadata')"
    by (simp add: mm)
  moreover have "\<not> isDirectory metadata'"
    using dir by (simp add: md' isDirectory_def)
  moreover note nc'
  moreover have "size_bytes metadata' = max (stored_size kv p) (int (offset + length D))"
    by (simp add: sz' sz)
  ultimately show "\<exists>m'. map_of kv' (p @ METADATA_SUFFIX) = Some (MetaRecord m') \<and> \<not> isDirectory m'
            \<and> num_chunks m' = Some (ceil_chunks (size_bytes m'))
            \<and> size_bytes m' = max (stored_size kv p) (int (offset + length D))"
    by blast
qed

lemma POST_success:
  assumes "POST e kv \<lparr>path = p, offsetStr = Num off, sizeStr = s0, apiKey = k, apiUrl = u, body = b64\<rparr>
           = (Succeeded st w, kv')"
    and "Buffer_from_base64 b64 \<noteq> []"
  shows "write_file e kv p (nat off) (Buffer_from_base64 b64) = (Succeeded st w, kv')"
    and "p \<noteq> []" and "0 \<le> off"
  using assms by (auto simp: POST_def Let_def split: if_splits)

lemma existing_bytes_bound:
  assumes "\<forall>j v. map_of kv (p @ CHUNK_SUFFIX @ decimal j) = Some v \<longrightarrow>
             length (utf8_encode (value_text v)) \<le> MAX_CHUNK_SIZE"
  shows "length (existing_bytes kv p j) \<le> MAX_CHUNK_SIZE"
  using assms by (auto simp: existing_bytes_def split: option.splits)

lemma patched_at_0:
  "patched 0 D j ex =
     take (min MAX_CHUNK_SIZE (length D - j * MAX_CHUNK_SIZE)) (drop (j * MAX_CHUNK_SIZE) D)
       @ drop (min MAX_CHUNK_SIZE (length D - j * MAX_CHUNK_SIZE)) ex"
  by (simp add: patched_def Let_def)

lemma round_trip_after_write:
  assumes "Buffer_from_base64 b64 = D" and "ascii D"
    and "\<forall>j v. map_of kv (p @ CHUNK_SUFFIX @ decimal j) = Some v \<longrightarrow>
           length (utf8_encode (value_text v)) \<le> MAX_CHUNK_SIZE"
    and "no_false_404 e"
    and "POST e kv \<lparr>path = p, offsetStr = Num 0, sizeStr = s0, apiKey = k, apiUrl = u, body = b64\<rparr>
           = (Succeeded st w, kv')"
    and "\<forall>c. fault e' c = None" and "k' \<noteq> []" and "u' \<noteq> []"
  shows "GET_read e' kv' \<lparr>path = p, offsetStr = Num 0, sizeStr = Num (int (length D)),
           apiKey = k', apiUrl = u', body = b'\<rparr> = Succeeded 200 D"
proof (cases "D = []")
  case True
  from assms(5) have "p \<noteq> []" by (auto simp: POST_def split: if_splits)
  with True assms(7,8) show ?thesis by (simp add: GET_read_def)
next
  case False
  let ?M = MAX_CHUNK_SIZE
  let ?n = "length D"
  have ne: "Buffer_from_base64 b64 \<noteq> []" using False assms(1) by simp
  note ps = POST_success[OF assms(5) ne, unfolded assms(1)]
  have wf: "write_file e kv p 0 D = (Succeeded st w, kv')" using ps(1) by simp
  note eff = write_file_effect[OF wf False assms(4)]
  from eff(1) obtain m' where
    m: "map_of kv' (p @ METADATA_SUFFIX) = Some (MetaRecord m')" and nd: "\<not> isDirectory m'"
    and nc: "num_chunks m' = Some (ceil_chunks (size_bytes m'))"
    and sz: "size_bytes m' = max (stored_size kv p) (int (0 + ?n))"
    by blast
  have n: "0 < ?n" using False by simp
  have big: "int ?n \<le> size_bytes m'" using sz by simp
  have rs: "?n = nat (min (int ?n) (size_bytes m' - int 0))" using big by simp
  have cs: "chunk_shows kv' p 0 ?n D j" if j: "0 div ?M \<le> j \<and> j \<le> (0 + ?n - 1) div ?M" for j
  proof -
    let ?ex = "existing_bytes kv p j"
    let ?we = "min ?M (?n - j * ?M)"
    have j1: "0 div ?M \<le> j" and j2: "j \<le> (0 + ?n - 1) div ?M" using j by simp_all
    note w = chunk_window[OF MAX_CHUNK_SIZE_pos n j1 j2]
    have room: "j * ?M + ?we \<le> ?n" using w(4) by (auto simp: min_def)
    have asc: "ascii (take ?we (drop (j * ?M) D))"
      by (intro ascii_take ascii_drop assms(2))
    have len: "length (take ?we (drop (j * ?M) D)) = ?we" using room by simp
    from eff(2) j have v: "map_of kv' (p @ CHUNK_SUFFIX @ decimal j)
        = Some (Text (Buffer_toString_utf8 (patched 0 D j ?ex)))"
      by simp
    have tex: "Buffer_toString_utf8 (patched 0 D j ?ex)
        = map ucast (take ?we (drop (j * ?M) D)) @ Buffer_toString_utf8 (drop ?we ?ex)"
      by (simp only: patched_at_0 toString_ascii_append[OF asc])
    have full: "length (Buffer_toString_utf8 (patched 0 D j ?ex)) = ?M"
      if lt: "j < (0 + ?n - 1) div ?M"
    proof -
      from lt have "Suc j \<le> (?n - 1) div ?M" by simp
      then have "j * ?M + ?M \<le> ?n - 1" by (simp add: less_eq_div_iff_mult_less_eq)
      then have we: "?we = ?M" by (simp add: min_def)
      have "drop ?we ?ex = []" using existing_bytes_bound[OF assms(3), of j] by (simp add: we)
      then have "Buffer_toString_utf8 (drop ?we ?ex) = []"
        by (simp add: Buffer_toString_utf8_def)
      then show ?thesis unfolding tex using len we by simp
    qed
    show ?thesis
      unfolding chunk_shows_def
      apply (rule exI[of _ "Text (Buffer_toString_utf8 (patched 0 D j ?ex))"])
      using v full len by (simp add: tex)
  qed
  have "1 \<le> int ?n" using n by linarith
  with big have pos: "int 0 < size_bytes m'" by linarith
  have "read_file e' kv' p 0 ?n = Succeeded 200 (take ?n (drop 0 D))"
    by (rule read_file_content[OF m nd _ pos n rs _ assms(2,6)])
       (use nc cs in \<open>simp_all\<close>)
  then show ?thesis
    using ps(2) assms(7,8) n by (simp add: GET_read_def)
qed

section \<open>Files held as dense ASCII chunks\<close>

lemma length_overwrite:
  "offset \<le> length F \<Longrightarrow> length (overwrite offset D F) = max (length F) (offset + length D)"
  by (auto simp: overwrite_def)

lemma patched_block_gen:
  fixes M :: nat and F D :: "byte list"
  assumes "0 < M" and "0 < length D" and "offset \<le> length F"
    and "cs < offset + length D" and "offset < cs + M"
  shows "take (offset - cs) (take M (drop cs F))
           @ replicate (offset - cs - length (take M (drop cs F))) 0
           @ take (min M (offset + length D - cs) - (offset - cs)) (drop (cs - offset) D)
           @ drop (min M (offset + length D - cs)) (take M (drop cs F))
         = take M (drop cs (take offset F @ D @ drop (offset + length D) F))"
proof (cases "cs \<le> offset")
  case True
  have e: "(length F - cs \<le> offset - cs) = (length F = offset)"
    using True assms(3) by auto
  show ?thesis
  proof (cases "M \<le> offset + length D - cs")
    case m: True
    with True assms show ?thesis
      by (auto simp: min_def drop_take e)
  next
    case False
    with True assms show ?thesis
      by (auto simp: min_def drop_take add.commute e)
  qed
next
  case c: False
  show ?thesis
  proof (cases "M \<le> offset + length D - cs")
    case True
    with c assms show ?thesis
      by (auto simp: min_def drop_take)
  next
    case False
    with c assms show ?thesis
      by (auto simp: min_def drop_take add.commute)
  qed
qed

lemma patched_block:
  assumes "D \<noteq> []" and "offset \<le> length F"
    and "offset div MAX_CHUNK_SIZE \<le> j" and "j \<le> (offset + length D - 1) div MAX_CHUNK_SIZE"
  shows "patched offset D j (block j F) = block j (overwrite offset D F)"
proof -
  have n: "0 < length D" using assms(1) by simp
  note w = chunk_window[OF MAX_CHUNK_SIZE_pos n assms(3,4)]
  show ?thesis
    unfolding patched_def block_def overwrite_def Let_def
    by (rule patched_block_gen[OF MAX_CHUNK_SIZE_pos n assms(2) w(4) w(5)])
qed

lemma untouched_block_gen:
  fixes M :: nat and F D :: "byte list"
  assumes "offset \<le> length F" and "cs + M \<le> offset \<or> offset + length D \<le> cs"
  shows "take M (drop cs (take offset F @ D @ drop (offset + length D) F)) = take M (drop cs F)"
  using assms by (auto simp: drop_take min_def)

lemma untouched_block:
  assumes "D \<noteq> []" and "offset \<le> length F"
    and "\<not> (offset div MAX_CHUNK_SIZE \<le> j \<and> j \<le> (offset + length D - 1) div MAX_CHUNK_SIZE)"
  shows "block j (overwrite offset D F) = block j F"
    and "(j * MAX_CHUNK_SIZE < length (overwrite offset D F)) = (j * MAX_CHUNK_SIZE < length F)"
proof -
  let ?M = MAX_CHUNK_SIZE
  have n: "0 < length D" using assms(1) by simp
  have out: "j * ?M + ?M \<le> offset \<or> offset + length D \<le> j * ?M"
  proof (cases "offset div ?M \<le> j")
    case True
    with assms(3) have "(offset + length D - 1) div ?M < j" by simp
    then have "offset + length D - 1 < j * ?M"
      by (simp add: div_less_iff_less_mult)
    with n show ?thesis by linarith
  next
    case False
    then have "Suc j \<le> offset div ?M" by simp
    then have "Suc j * ?M \<le> offset"
      by (simp add: less_eq_div_iff_mult_less_eq)
    then show ?thesis by simp
  qed
  show "block j (overwrite offset D F) = block j F"
    unfolding block_def overwrite_def by (rule untouched_block_gen[OF assms(2) out])
  from out show "(j * ?M < length (overwrite offset D F)) = (j * ?M < length F)"
  proof
    assume "j * ?M + ?M \<le> offset"
    with assms(2) MAX_CHUNK_SIZE_pos have "j * ?M < length F" by linarith
    then show ?thesis by (simp add: length_overwrite[OF assms(2)] less_max_iff_disj)
  next
    assume "offset + length D \<le> j * ?M"
    then show ?thesis by (auto simp: length_overwrite[OF assms(2)] less_max_iff_disj)
  qed
qed

lemma read_held_file:
  assumes "holds_file kv p F" and "\<forall>c. fault e c = None" and "0 < sz"
  shows "read_file e kv p offset sz = Succeeded 200 (take sz (drop offset F))"
proof -
  let ?M = MAX_CHUNK_SIZE
  from assms(1) obtain m where asc: "ascii F"
    and m: "map_of kv (p @ METADATA_SUFFIX) = Some (MetaRecord m)" and nd: "\<not> isDirectory m"
    and sz: "size_bytes m = int (length F)"
    and nc: "num_chunks m = None \<or> num_chunks m = Some (ceil_chunks (size_bytes m))"
    and ch: "\<forall>j. map_of kv (p @ CHUNK_SUFFIX @ decimal j) =
             (if j * ?M < length F then Some (Text (map ucast (block j F))) else None)"
    unfolding holds_file_def by blast
  show ?thesis
  proof (cases "offset < length F")
    case False
    have g: "getMetadata_read e kv p = Inr (with_num_chunks m)"
      using m assms(2) by (simp add: getMetadata_read_def hpkv_get_record_def)
    from False show ?thesis
      using nd by (simp add: read_file_def g sz Let_def)
  next
    case True
    define readSize where "readSize = nat (min (int sz) (size_bytes m - int offset))"
    have "size_bytes m - int offset = int (length F - offset)"
      using True by (simp add: sz of_nat_diff)
    then have rs: "readSize = min sz (length F - offset)"
      by (simp add: readSize_def flip: of_nat_min)
    have rs0: "0 < readSize" using True assms(3) by (simp add: rs)
    have fit: "offset + readSize \<le> length F" using True by (simp add: rs)
    have lt: "int offset < size_bytes m" using True by (simp add: sz)
    have cs: "chunk_shows kv p offset readSize F j"
      if j: "offset div ?M \<le> j \<and> j \<le> (offset + readSize - 1) div ?M" for j
    proof -
      have j1: "offset div ?M \<le> j" and j2: "j \<le> (offset + readSize - 1) div ?M"
        using j by simp_all
      note w = chunk_window[OF MAX_CHUNK_SIZE_pos rs0 j1 j2]
      have inF: "j * ?M < length F" using w(4) fit by simp
      have v: "map_of kv (p @ CHUNK_SUFFIX @ decimal j) = Some (Text (map ucast (block j F)))"
        using ch inF by simp
      have len: "length (block j F) = min ?M (length F - j * ?M)"
        by (simp add: block_def)
      have a: "min ?M (offset + readSize - j * ?M) \<le> length (block j F)"
        using fit by (simp add: len)
      have b: "length (block j F) = ?M" if "j < (offset + readSize - 1) div ?M"
      proof -
        from that have "Suc j \<le> (offset + readSize - 1) div ?M" by simp
        then have "j * ?M + ?M \<le> offset + readSize - 1"
          by (simp add: less_eq_div_iff_mult_less_eq)
        with fit rs0 show ?thesis by (simp add: len)
      qed
      have c: "take (min ?M (offset + readSize - j * ?M)) (block j F)
               = take (min ?M (offset + readSize - j * ?M)) (drop (j * ?M) F)"
        by (simp add: block_def min_def)
      show ?thesis
        unfolding chunk_shows_def
        apply (rule exI[of _ "Text (map ucast (block j F))"])
        using v a b c by (simp add: take_map)
    qed
    have "read_file e kv p offset sz = Succeeded 200 (take readSize (drop offset F))"
      by (rule read_file_content[OF m nd nc lt assms(3) readSize_def fit asc assms(2)])
         (use cs in simp)
    moreover have "take readSize (drop offset F) = take sz (drop offset F)"
      by (simp add: rs min_def)
    ultimately show ?thesis by simp
  qed
qed

section \<open>A write succeeds where the service answers\<close>

lemma write_chunks_succeeds:
  assumes "D \<noteq> []" and "\<forall>c. fault e c = None"
    and "endChunk = (offset + length D - 1) div MAX_CHUNK_SIZE"
  shows "offset div MAX_CHUNK_SIZE \<le> i \<Longrightarrow> i \<le> Suc endChunk \<Longrightarrow>
         \<exists>kv'. write_chunks e p offset D endChunk i (i * MAX_CHUNK_SIZE - offset) kv = (None, kv')"
proof (induction "Suc endChunk - i" arbitrary: i kv)
  case 0
  then have "endChunk < i" by simp
  then show ?case using write_chunks_done by blast
next
  case (Suc d)
  let ?M = MAX_CHUNK_SIZE
  let ?ws = "offset - i * ?M"
  let ?we = "min ?M (offset + length D - i * ?M)"
  from Suc.hyps(2) have i: "i \<le> endChunk" by simp
  then have i': "i \<le> (offset + length D - 1) div ?M" by (simp add: assms(3))
  have n: "0 < length D" using assms(1) by simp
  note w = chunk_window[OF MAX_CHUNK_SIZE_pos n Suc.prems(1) i']
  have "\<exists>s. getChunk e kv p i = Inr s"
    using assms(2) by (simp add: getChunk_def hpkv_get_record_def split: option.splits)
  then obtain s where g: "getChunk e kv p i = Inr s" by blast
  define ex where "ex = (case s of None \<Rightarrow> Buffer_alloc 0
          | Some str \<Rightarrow> if str = [] then Buffer_alloc 0 else Buffer_from_utf8 str)"
  obtain nc where nc: "newChunk_of ex D ?ws ?we (i * ?M - offset) = Some nc"
    using newChunk_of_eq[OF w(1) w(2)] by blast
  have "\<exists>kv1. writeChunk e kv p i (Buffer_toString_utf8 nc) = (None, kv1)"
    using assms(2) by (simp add: writeChunk_def hpkv_post_record_def)
  then obtain kv1 where wc: "writeChunk e kv p i (Buffer_toString_utf8 nc) = (None, kv1)"
    by blast
  have step: "write_chunks e p offset D endChunk i (i * ?M - offset) kv
        = write_chunks e p offset D endChunk (Suc i) (i * ?M - offset + (?we - ?ws)) kv1"
    by (subst write_chunks.simps) (simp add: i g Let_def ex_def[symmetric] nc wc)
  show ?case
  proof (cases "i = endChunk")
    case True
    then show ?thesis unfolding step using write_chunks_done[of endChunk "Suc i"] by simp
  next
    case False
    with i have lt: "i < (offset + length D - 1) div ?M" by (simp add: assms(3))
    have eq: "i * ?M - offset + (?we - ?ws) = Suc i * ?M - offset"
      by (rule w(3)[OF lt])
    have d: "d = Suc endChunk - Suc i" using Suc.hyps(2) by simp
    have lo: "offset div ?M \<le> Suc i" using Suc.prems(1) by simp
    have hi: "Suc i \<le> Suc endChunk" using i by simp
    show ?thesis unfolding step eq by (rule Suc.hyps(1)[OF d lo hi])
  qed
qed

lemma write_file_succeeds:
  assumes "D \<noteq> []" and "\<forall>c. fault e c = None" and "writable kv p"
  shows "\<exists>kv'. write_file e kv p offset D = (Succeeded 200 (length D), kv')"
proof -
  let ?M = MAX_CHUNK_SIZE
  let ?start = "offset div ?M"
  let ?end = "(offset + length D - 1) div ?M"
  have z: "?start * ?M - offset = 0" by simp
  have se: "?start \<le> Suc ?end"
    by (rule le_SucI, rule div_le_mono) (use assms(1) in \<open>cases D; simp\<close>)
  from write_chunks_succeeds[OF assms(1,2) refl order_refl se, of p kv, unfolded z]
  obtain kv1 where wc: "write_chunks e p offset D ?end ?start 0 kv = (None, kv1)" by blast
  have wm: "\<exists>kv'. writeMetadata e kv1 p m = (None, kv')" for m
    using assms(2) by (simp add: writeMetadata_def hpkv_post_record_def)
  have key: "(if p = ''/'' then ''/.__meta__'' else p @ METADATA_SUFFIX) = p @ METADATA_SUFFIX"
    by (simp add: METADATA_SUFFIX_def)
  have "getMetadata e kv p = Inr None
        \<or> (\<exists>m. getMetadata e kv p = Inr (Some m) \<and> \<not> isDirectory m)"
    using assms(2,3)
    by (simp add: writable_def getMetadata_def key hpkv_get_record_def
        split: option.splits kv_value.splits)
  then show ?thesis
  proof (elim disjE exE conjE)
    assume g: "getMetadata e kv p = Inr None"
    from wm obtain kv' where "writeMetadata e kv1 p
       (\<lparr>mode = DEFAULT_FILE_MODE, uid = 1000, gid = 1000, size_bytes = 0,
          atime = now e, mtime = now e, ctime = now e, num_chunks = Some 0\<rparr>
        \<lparr>size_bytes := max 0 (int (offset + length D)), mtime := now e, atime := now e,
         ctime := now e, num_chunks := Some (ceil_chunks (max 0 (int (offset + length D))))\<rparr>)
       = (None, kv')" by blast
    then show ?thesis
      by (simp add: write_file_def g Let_def wc[unfolded One_nat_def])
  next
    fix m assume g: "getMetadata e kv p = Inr (Some m)" and nd: "\<not> isDirectory m"
    from wm obtain kv' where "writeMetadata e kv1 p
       (m\<lparr>size_bytes := max (size_bytes m) (int (offset + length D)), mtime := now e,
          atime := now e, ctime := ctime m,
          num_chunks := Some (ceil_chunks (max (size_bytes m) (int (offset + length D))))\<rparr>)
       = (None, kv')" by blast
    then show ?thesis
      by (simp add: write_file_def g nd Let_def wc[unfolded One_nat_def])
  qed
qed

lemma POST_succeeds:
  assumes "\<forall>c. fault e c = None" and "writable kv p"
    and "p \<noteq> []" and "k \<noteq> []" and "u \<noteq> []" and "b64 \<noteq> []" and "0 \<le> off"
  shows "\<exists>kv'. POST e kv \<lparr>path = p, offsetStr = Num off, sizeStr = s0, apiKey = k, apiUrl = u,
                  body = b64\<rparr> = (Succeeded 200 (length (Buffer_from_base64 b64)), kv')"
proof (cases "Buffer_from_base64 b64 = []")
  case True
  with assms show ?thesis by (simp add: POST_def)
next
  case False
  from write_file_succeeds[OF False assms(1,2), of "nat off"] False assms(3-7)
  show ?thesis by (simp add: POST_def Let_def)
qed

lemma overwrite_nth:
  assumes "offset \<le> length F" and "g < length (overwrite offset D F)"
  shows "overwrite offset D F ! g =
         (if offset \<le> g \<and> g < offset + length D then D ! (g - offset) else F ! g)"
  using assms by (auto simp: overwrite_def nth_append min_def)

lemma existing_bytes_held:
  assumes "holds_file kv p F"
  shows "existing_bytes kv p j = block j F"
proof -
  from assms have asc: "ascii F"
    and ch: "map_of kv (p @ CHUNK_SUFFIX @ decimal j) =
             (if j * MAX_CHUNK_SIZE < length F then Some (Text (map ucast (block j F))) else None)"
    unfolding holds_file_def by blast+
  have "ascii (block j F)" unfolding block_def by (intro ascii_take ascii_drop asc)
  then show ?thesis
    by (simp add: existing_bytes_def ch utf8_encode_ascii) (simp add: block_def)
qed

lemma write_held_file:
  assumes "holds_file kv p F" and "ascii D" and "D \<noteq> []" and "offset \<le> length F"
    and "no_false_404 e" and "write_file e kv p offset D = (Succeeded st w, kv')"
  shows "holds_file kv' p (overwrite offset D F)" and "w = length D"
proof -
  let ?M = MAX_CHUNK_SIZE
  let ?F' = "overwrite offset D F"
  note eff = write_file_effect[OF assms(6,3,5)]
  show "w = length D" by (rule eff(4))
  from assms(1) obtain m where asc: "ascii F"
    and m: "map_of kv (p @ METADATA_SUFFIX) = Some (MetaRecord m)"
    and sz: "size_bytes m = int (length F)"
    and ch: "\<forall>j. map_of kv (p @ CHUNK_SUFFIX @ decimal j) =
             (if j * ?M < length F then Some (Text (map ucast (block j F))) else None)"
    unfolding holds_file_def by blast
  have asc': "ascii ?F'"
    using asc assms(2) by (simp add: overwrite_def ascii_take ascii_drop)
  have ss: "stored_size kv p = int (length F)"
    by (simp add: stored_size_def m sz)
  have len: "int (length ?F') = max (stored_size kv p) (int (offset + length D))"
    by (simp add: length_overwrite[OF assms(4)] ss)
  from eff(1) obtain m' where
    m': "map_of kv' (p @ METADATA_SUFFIX) = Some (MetaRecord m')" and nd: "\<not> isDirectory m'"
    and nc: "num_chunks m' = Some (ceil_chunks (size_bytes m'))"
    and sz': "size_bytes m' = max (stored_size kv p) (int (offset + length D))"
    by blast
  have chunks: "map_of kv' (p @ CHUNK_SUFFIX @ decimal j) =
             (if j * ?M < length ?F' then Some (Text (map ucast (block j ?F'))) else None)" for j
  proof (cases "offset div ?M \<le> j \<and> j \<le> (offset + length D - 1) div ?M")
    case True
    then have j1: "offset div ?M \<le> j" and j2: "j \<le> (offset + length D - 1) div ?M" by simp_all
    have n: "0 < length D" using assms(3) by simp
    note w = chunk_window[OF MAX_CHUNK_SIZE_pos n j1 j2]
    have inF: "j * ?M < length ?F'"
      using w(4) by (simp add: length_overwrite[OF assms(4)])
    have "ascii (block j ?F')" unfolding block_def by (intro ascii_take ascii_drop asc')
    then have "Buffer_toString_utf8 (patched offset D j (existing_bytes kv p j))
             = map ucast (block j ?F')"
      by (simp add: existing_bytes_held[OF assms(1)] patched_block[OF assms(3,4) j1 j2]
          toString_ascii)
    with eff(2) True inF show ?thesis by simp
  next
    case False
    with eff(3) have "map_of kv' (p @ CHUNK_SUFFIX @ decimal j) = map_of kv (p @ CHUNK_SUFFIX @ decimal j)"
      by blast
    then show ?thesis
      using ch untouched_block[OF assms(3,4) False] by simp
  qed
  show "holds_file kv' p ?F'"
    unfolding holds_file_def
    using asc' m' nd nc sz' len chunks by auto
qed

lemma holds_file_writable: "holds_file kv p F \<Longrightarrow> writable kv p"
  by (auto simp: holds_file_def writable_def)

section \<open>Round trip and partial overwrite\<close>

text \<open>C1, amended: let \<open>D\<close> be ASCII data (every byte below 0x80), the body its base64 text,
  let the metadata of \<open>p\<close> in the store be absent or the complete record of a regular file
  (\<open>writable\<close>), and let no chunk of \<open>p\<close> already in the store be longer than MAX_CHUNK_SIZE
  bytes. Where the service answers 404 only for a missing key, every successful write of
  \<open>D\<close> at offset 0 is followed by a read of \<open>length D\<close> bytes at offset 0 that returns exactly
  \<open>D\<close>; and where the service answers every call and the body is not empty, the write does
  succeed, with \<open>length D\<close> bytes written.\<close>

theorem C1_round_trip:
  assumes "Buffer_from_base64 b64 = D" and "ascii D"
    and "writable kv p"
    and "\<forall>j v. map_of kv (p @ CHUNK_SUFFIX @ decimal j) = Some v \<longrightarrow>
           length (utf8_encode (value_text v)) \<le> MAX_CHUNK_SIZE"
    and "no_false_404 e"
    and "\<forall>c. fault e' c = None" and "k' \<noteq> []" and "u' \<noteq> []"
  shows "(\<forall>st w kv'.
            POST e kv \<lparr>path = p, offsetStr = Num 0, sizeStr = s0, apiKey = k, apiUrl = u,
                       body = b64\<rparr> = (Succeeded st w, kv') \<longrightarrow>
            GET_read e' kv' \<lparr>path = p, offsetStr = Num 0, sizeStr = Num (int (length D)),
                       apiKey = k', apiUrl = u', body = b'\<rparr> = Succeeded 200 D)
       \<and> ((\<forall>c. fault e c = None) \<and> p \<noteq> [] \<and> k \<noteq> [] \<and> u \<noteq> [] \<and> b64 \<noteq> [] \<longrightarrow>
            (\<exists>kv'. POST e kv \<lparr>path = p, offsetStr = Num 0, sizeStr = s0, apiKey = k, apiUrl = u,
                       body = b64\<rparr> = (Succeeded 200 (length D), kv')))"
proof (intro conjI allI impI)
  fix st w kv'
  assume "POST e kv \<lparr>path = p, offsetStr = Num 0, sizeStr = s0, apiKey = k, apiUrl = u,
                       body = b64\<rparr> = (Succeeded st w, kv')"
  from round_trip_after_write[OF assms(1,2,4,5) this assms(6-8)]
  show "GET_read e' kv' \<lparr>path = p, offsetStr = Num 0, sizeStr = Num (int (length D)),
                       apiKey = k', apiUrl = u', body = b'\<rparr> = Succeeded 200 D" .
next
  assume a: "(\<forall>c. fault e c = None) \<and> p \<noteq> [] \<and> k \<noteq> [] \<and> u \<noteq> [] \<and> b64 \<noteq> []"
  then show "\<exists>kv'. POST e kv \<lparr>path = p, offsetStr = Num 0, sizeStr = s0, apiKey = k, apiUrl = u,
                       body = b64\<rparr> = (Succeeded 200 (length D), kv')"
    using POST_succeeds[of e kv p k u b64 0 s0] assms(1,3) by simp
qed

text \<open>C3, amended: let the store hold the regular file \<open>p\<close> with ASCII content \<open>F\<close>, its
  chunks dense and in step with its metadata, and let \<open>D\<close> be ASCII data that is not empty,
  written at an offset that is at most the size of the file. After a successful write the
  store holds the file with the content \<open>overwrite offset D F\<close>, and every read of a range
  returns that range of it, as every read before the write returned that range of \<open>F\<close>;
  the bytes of \<open>overwrite offset D F\<close> in [offset, offset + length D) are those of \<open>D\<close> and
  every other byte is the one of \<open>F\<close>, whatever chunk boundaries the range crosses. Where
  the service answers every call, the write does succeed.\<close>

theorem C3_write_frame:
  assumes "holds_file kv p F" and "Buffer_from_base64 b64 = D" and "ascii D" and "D \<noteq> []"
    and "offset \<le> length F" and "no_false_404 e" and "p \<noteq> []"
    and "\<forall>c. fault e' c = None" and "k' \<noteq> []" and "u' \<noteq> []" and "0 < sz"
  shows "(\<forall>st w kv'.
            POST e kv \<lparr>path = p, offsetStr = Num (int offset), sizeStr = s0, apiKey = k,
                       apiUrl = u, body = b64\<rparr> = (Succeeded st w, kv') \<longrightarrow>
            w = length D \<and> holds_file kv' p (overwrite offset D F) \<and>
            GET_read e' kv' \<lparr>path = p, offsetStr = Num (int a), sizeStr = Num (int sz),
                       apiKey = k', apiUrl = u', body = b'\<rparr>
              = Succeeded 200 (take sz (drop a (overwrite offset D F))))
       \<and> GET_read e' kv \<lparr>path = p, offsetStr = Num (int a), sizeStr = Num (int sz),
                       apiKey = k', apiUrl = u', body = b'\<rparr> = Succeeded 200 (take sz (drop a F))
       \<and> (\<forall>g. g < length (overwrite offset D F) \<longrightarrow>
            overwrite offset D F ! g =
              (if offset \<le> g \<and> g < offset + length D then D ! (g - offset) else F ! g))
       \<and> ((\<forall>c. fault e c = None) \<and> k \<noteq> [] \<and> u \<noteq> [] \<longrightarrow>
            (\<exists>kv'. POST e kv \<lparr>path = p, offsetStr = Num (int offset), sizeStr = s0, apiKey = k,
                       apiUrl = u, body = b64\<rparr> = (Succeeded 200 (length D), kv')))"
proof -
  let ?W = "\<lparr>path = p, offsetStr = Num (int offset), sizeStr = s0, apiKey = k,
                       apiUrl = u, body = b64\<rparr>"
  let ?R = "\<lparr>path = p, offsetStr = Num (int a), sizeStr = Num (int sz),
                       apiKey = k', apiUrl = u', body = b'\<rparr>"
  have read: "GET_read e' kv0 ?R = Succeeded 200 (take sz (drop a G))" if "holds_file kv0 p G" for kv0 G
    using read_held_file[OF that assms(8,11), of a] assms(7,9,10,11)
    by (simp add: GET_read_def)
  have ne: "Buffer_from_base64 b64 \<noteq> []" using assms(2,4) by simp
  have b: "b64 \<noteq> []"
    using ne by (auto simp: Buffer_from_base64_def List.map_filter_def)
  have 1: "w = length D \<and> holds_file kv' p (overwrite offset D F) \<and>
            GET_read e' kv' ?R = Succeeded 200 (take sz (drop a (overwrite offset D F)))"
    if post: "POST e kv ?W = (Succeeded st w, kv')" for st w kv'
  proof -
    from POST_success(1)[OF post ne]
    have wf: "write_file e kv p offset D = (Succeeded st w, kv')" by (simp add: assms(2))
    note h = write_held_file[OF assms(1,3,4,5,6) wf]
    from h read[OF h(1)] show ?thesis by simp
  qed
  have 2: "GET_read e' kv ?R = Succeeded 200 (take sz (drop a F))"
    by (rule read[OF assms(1)])
  have 3: "\<forall>g. g < length (overwrite offset D F) \<longrightarrow>
            overwrite offset D F ! g =
              (if offset \<le> g \<and> g < offset + length D then D ! (g - offset) else F ! g)"
    using overwrite_nth[OF assms(5)] by blast
  have 4: "\<exists>kv'. POST e kv ?W = (Succeeded 200 (length D), kv')"
    if "(\<forall>c. fault e c = None) \<and> k \<noteq> [] \<and> u \<noteq> []"
    using POST_succeeds[of e kv p k u b64 "int offset" s0] that
      holds_file_writable[OF assms(1)] assms(2,7) b by simp
  from 1 2 3 4 show ?thesis by blast
qed

lemma base64_group_QUFB:
  "Buffer_from_base64 (''QUFB'' @ rest) = [65, 65, 65] @ Buffer_from_base64 rest"
  by (simp add: Buffer_from_base64_def base64_value_def List.map_filter_def)

lemma base64_many_A:
  "Buffer_from_base64 (concat (replicate n ''QUFB'') @ ''QQ=='') = replicate (3 * n) 65 @ [65]"
proof (induction n)
  case 0
  show ?case by (simp add: Buffer_from_base64_def base64_value_def List.map_filter_def)
next
  case (Suc n)
  have "replicate (3 * Suc n) (65 :: byte) = [65, 65, 65] @ replicate (3 * n) 65"
    by (simp add: numeral_3_eq_3)
  with Suc show ?case
    using base64_group_QUFB[of "concat (replicate n ''QUFB'') @ ''QQ==''"] by simp
qed

lemma base64_3001_A:
  "Buffer_from_base64 (concat (replicate 1000 ''QUFB'') @ ''QQ=='') = replicate 3001 65"
proof -
  have "(3001 :: nat) = Suc (3 * 1000)" by simp
  then have "replicate 3001 (65 :: byte) = replicate (3 * 1000) 65 @ [65]"
    by (simp only: replicate_Suc replicate_append_same)
  then show ?thesis by (simp only: base64_many_A)
qed

lemma ascii_replicate: "(b :: byte) < 0x80 \<Longrightarrow> ascii (replicate n b)"
  by (simp add: ascii_def)

lemma no_fault_no_false_404: "\<forall>c. fault e c = None \<Longrightarrow> no_false_404 e"
  by (simp add: no_false_404_def)

text \<open>C1, as the spec states it: for every byte sequence \<open>D\<close>, arbitrary binary content, a
  write of \<open>D\<close> at offset 0 and then a read of \<open>length D\<close> bytes at offset 0 returns exactly
  \<open>D\<close>. The write route stores a chunk as the UTF-8 decoding of its bytes, and the read
  route returns the UTF-8 encoding of the stored text: the single byte 0xFF is stored as the
  replacement character U+FFFD and read back as the three bytes EF BF BD.\<close>

theorem C1_counterexample:
  "Buffer_from_base64 ''/w=='' = [0xFF]
   \<and> POST \<lparr>fault = (\<lambda>c. None), page_size = 0, now = 0\<rparr> []
        \<lparr>path = ''/b'', offsetStr = Num 0, sizeStr = Absent, apiKey = ''key'', apiUrl = ''url'',
         body = ''/w==''\<rparr>
      = (Succeeded 200 1,
         [(''/b.chunk0'', Text [0xFFFD]),
          (''/b.__meta__'', MetaRecord \<lparr>mode = 33188, uid = 1000, gid = 1000, size_bytes = 1,
             atime = 0, mtime = 0, ctime = 0, num_chunks = Some 1\<rparr>)])
   \<and> GET_read \<lparr>fault = (\<lambda>c. None), page_size = 0, now = 0\<rparr>
         [(''/b.chunk0'', Text [0xFFFD]),
          (''/b.__meta__'', MetaRecord \<lparr>mode = 33188, uid = 1000, gid = 1000, size_bytes = 1,
             atime = 0, mtime = 0, ctime = 0, num_chunks = Some 1\<rparr>)]
        \<lparr>path = ''/b'', offsetStr = Num 0, sizeStr = Num 1, apiKey = ''key'', apiUrl = ''url'',
         body = []\<rparr>
      = Succeeded 200 [0xEF, 0xBF, 0xBD]"
proof (intro conjI)
  show b: "Buffer_from_base64 ''/w=='' = [0xFF]"
    by (simp add: Buffer_from_base64_def base64_value_def List.map_filter_def)
  show "POST \<lparr>fault = (\<lambda>c. None), page_size = 0, now = 0\<rparr> []
        \<lparr>path = ''/b'', offsetStr = Num 0, sizeStr = Absent, apiKey = ''key'', apiUrl = ''url'',
         body = ''/w==''\<rparr>
      = (Succeeded 200 1,
         [(''/b.chunk0'', Text [0xFFFD]),
          (''/b.__meta__'', MetaRecord \<lparr>mode = 33188, uid = 1000, gid = 1000, size_bytes = 1,
             atime = 0, mtime = 0, ctime = 0, num_chunks = Some 1\<rparr>)])"
    by (simp add: POST_def b write_file_def getMetadata_def hpkv_get_record_def
      METADATA_SUFFIX_def MAX_CHUNK_SIZE_def Let_def
      write_chunks.simps[of _ _ _ _ _ 0] write_chunks.simps[of _ _ _ _ _ "Suc 0"]
      getChunk_def CHUNK_SUFFIX_def decimal_0 Buffer_alloc_def newChunk_of_def Buffer_copy_def
      Buffer_toString_utf8_def utf8_start_def
      writeChunk_def hpkv_post_record_def writeMetadata_def DEFAULT_FILE_MODE_def ceil_chunks_div)
  show "GET_read \<lparr>fault = (\<lambda>c. None), page_size = 0, now = 0\<rparr>
         [(''/b.chunk0'', Text [0xFFFD]),
          (''/b.__meta__'', MetaRecord \<lparr>mode = 33188, uid = 1000, gid = 1000, size_bytes = 1,
             atime = 0, mtime = 0, ctime = 0, num_chunks = Some 1\<rparr>)]
        \<lparr>path = ''/b'', offsetStr = Num 0, sizeStr = Num 1, apiKey = ''key'', apiUrl = ''url'',
         body = []\<rparr>
      = Succeeded 200 [0xEF, 0xBF, 0xBD]"
    by (simp add: GET_read_def read_file_def getMetadata_read_def hpkv_get_record_def
      METADATA_SUFFIX_def with_num_chunks_def isDirectory_def S_IFMT_def S_IFDIR_def
      MAX_CHUNK_SIZE_def Let_def read_chunks.simps[of _ _ _ _ _ _ 0 0]
      getChunk_read_def CHUNK_SUFFIX_def decimal_0 substring_def utf8_bytes_def)
qed

text \<open>The amended round trip at a write that crosses a chunk boundary: 3001 bytes \<open>A\<close>
  written to an empty store.\<close>

theorem C1_round_trip_witness:
  "\<exists>kv'. POST \<lparr>fault = (\<lambda>c. None), page_size = 0, now = 0\<rparr> []
            \<lparr>path = ''/a'', offsetStr = Num 0, sizeStr = Absent, apiKey = ''key'',
             apiUrl = ''url'', body = concat (replicate 1000 ''QUFB'') @ ''QQ==''\<rparr>
          = (Succeeded 200 3001, kv')
        \<and> GET_read \<lparr>fault = (\<lambda>c. None), page_size = 0, now = 0\<rparr> kv'
            \<lparr>path = ''/a'', offsetStr = Num 0, sizeStr = Num 3001, apiKey = ''key'',
             apiUrl = ''url'', body = []\<rparr>
          = Succeeded 200 (replicate 3001 65)"
proof -
  let ?e = "\<lparr>fault = (\<lambda>c. None), page_size = 0, now = 0\<rparr>"
  let ?b = "concat (replicate 1000 ''QUFB'') @ ''QQ==''"
  let ?D = "replicate 3001 (65 :: byte)"
  have f: "\<forall>c. fault ?e c = None" by simp
  have asc: "ascii ?D" by (rule ascii_replicate) simp
  have bound: "\<forall>j v. map_of ([] :: kv) (''/a'' @ CHUNK_SUFFIX @ decimal j) = Some v \<longrightarrow>
           length (utf8_encode (value_text v)) \<le> MAX_CHUNK_SIZE" by simp
  have w: "writable [] ''/a''" by (simp add: writable_def)
  note t = C1_round_trip[OF base64_3001_A asc w bound no_fault_no_false_404[OF f] f,
      of "''key''" "''url''" Absent "''key''" "''url''" "[]"]
  from t obtain kv' where
    "POST ?e [] \<lparr>path = ''/a'', offsetStr = Num 0, sizeStr = Absent, apiKey = ''key'',
             apiUrl = ''url'', body = ?b\<rparr> = (Succeeded 200 (length ?D), kv')"
    by auto
  with t show ?thesis by auto
qed

lemma decimal_1: "decimal 1 = ''1''"
  by (simp add: decimal.simps digit_char_def)

lemma decimal_Suc_0: "decimal (Suc 0) = ''1''"
  using decimal_1 by simp

lemma decimal_eq_0: "(decimal j = ''0'') = (j = 0)"
  using decimal_eq_iff[of j 0] by (simp only: decimal_0)

lemma decimal_eq_1: "(decimal j = ''1'') = (j = 1)"
  using decimal_eq_iff[of j 1] by (simp only: decimal_1)

lemma base64_WFla: "Buffer_from_base64 ''WFla'' = [88, 89, 90]"
  by (simp add: Buffer_from_base64_def base64_value_def List.map_filter_def)

lemma ascii_XYZ: "ascii [88, 89, 90]"
  by (simp add: ascii_def)

lemma holds_two_chunks:
  "holds_file
     [(''/f.__meta__'', MetaRecord \<lparr>mode = 33188, uid = 1000, gid = 1000, size_bytes = 6000,
         atime = 5, mtime = 5, ctime = 5, num_chunks = Some 2\<rparr>),
      (''/f.chunk0'', Text (replicate 3000 65)),
      (''/f.chunk1'', Text (replicate 3000 65))]
     ''/f'' (replicate 6000 65)"
proof -
  let ?kv = "[(''/f.__meta__'', MetaRecord \<lparr>mode = 33188, uid = 1000, gid = 1000, size_bytes = 6000,
         atime = 5, mtime = 5, ctime = 5, num_chunks = Some 2\<rparr>),
      (''/f.chunk0'', Text (replicate 3000 65)),
      (''/f.chunk1'', Text (replicate 3000 65))]"
  let ?F = "replicate 6000 (65 :: byte)"
  have a: "ascii ?F" by (rule ascii_replicate) simp
  have m: "\<exists>m. map_of ?kv (''/f'' @ METADATA_SUFFIX) = Some (MetaRecord m) \<and> \<not> isDirectory m
             \<and> size_bytes m = int (length ?F)
             \<and> (num_chunks m = None \<or> num_chunks m = Some (ceil_chunks (size_bytes m)))"
    by (simp add: METADATA_SUFFIX_def isDirectory_def S_IFMT_def S_IFDIR_def ceil_chunks_div
        MAX_CHUNK_SIZE_def)
  have c: "map_of ?kv (''/f'' @ CHUNK_SUFFIX @ decimal j) =
             (if j * MAX_CHUNK_SIZE < length ?F then Some (Text (map ucast (block j ?F))) else None)"
    for j
  proof -
    consider "j = 0" | "j = 1" | "2 \<le> j" by linarith
    then show ?thesis
    proof cases
      case 1
      then show ?thesis
        by (simp add: CHUNK_SUFFIX_def decimal_0 block_def MAX_CHUNK_SIZE_def)
    next
      case 2
      then show ?thesis
        by (simp add: CHUNK_SUFFIX_def decimal_Suc_0 block_def MAX_CHUNK_SIZE_def)
    next
      case 3
      then show ?thesis
        by (simp add: CHUNK_SUFFIX_def decimal_eq_0 decimal_eq_1 MAX_CHUNK_SIZE_def)
    qed
  qed
  from a m c show ?thesis unfolding holds_file_def by blast
qed

text \<open>C3, as the spec states it: for every existing regular file, every prior content and
  every write of data that is not empty, after the write the bytes in
  [offset, offset + length data) equal the data and every byte outside is unchanged. The
  file \<open>/f\<close> holds the four bytes \<open>AAAA\<close>; the single byte 0xFF is written at offset 1.
  The chunk is stored as text with the replacement character, and the read of the four
  bytes of the file returns six bytes, none of them 0xFF.\<close>

theorem C3_counterexample:
  "Buffer_from_base64 ''/w=='' = [0xFF]
   \<and> GET_read \<lparr>fault = (\<lambda>c. None), page_size = 0, now = 9\<rparr>
         [(''/f.chunk0'', Text [65, 65, 65, 65]),
          (''/f.__meta__'', MetaRecord \<lparr>mode = 33188, uid = 1000, gid = 1000, size_bytes = 4,
             atime = 5, mtime = 5, ctime = 5, num_chunks = Some 1\<rparr>)]
        \<lparr>path = ''/f'', offsetStr = Num 0, sizeStr = Num 4, apiKey = ''key'', apiUrl = ''url'',
         body = []\<rparr>
      = Succeeded 200 [65, 65, 65, 65]
   \<and> POST \<lparr>fault = (\<lambda>c. None), page_size = 0, now = 9\<rparr>
         [(''/f.chunk0'', Text [65, 65, 65, 65]),
          (''/f.__meta__'', MetaRecord \<lparr>mode = 33188, uid = 1000, gid = 1000, size_bytes = 4,
             atime = 5, mtime = 5, ctime = 5, num_chunks = Some 1\<rparr>)]
        \<lparr>path = ''/f'', offsetStr = Num 1, sizeStr = Absent, apiKey = ''key'', apiUrl = ''url'',
         body = ''/w==''\<rparr>
      = (Succeeded 200 1,
         [(''/f.chunk0'', Text [65, 0xFFFD, 65, 65]),
          (''/f.__meta__'', MetaRecord \<lparr>mode = 33188, uid = 1000, gid = 1000, size_bytes = 4,
             atime = 9, mtime = 9, ctime = 5, num_chunks = Some 1\<rparr>)])
   \<and> GET_read \<lparr>fault = (\<lambda>c. None), page_size = 0, now = 9\<rparr>
         [(''/f.chunk0'', Text [65, 0xFFFD, 65, 65]),
          (''/f.__meta__'', MetaRecord \<lparr>mode = 33188, uid = 1000, gid = 1000, size_bytes = 4,
             atime = 9, mtime = 9, ctime = 5, num_chunks = Some 1\<rparr>)]
        \<lparr>path = ''/f'', offsetStr = Num 0, sizeStr = Num 4, apiKey = ''key'', apiUrl = ''url'',
         body = []\<rparr>
      = Succeeded 200 [65, 0xEF, 0xBF, 0xBD, 65, 65]"
proof (intro conjI)
  show b: "Buffer_from_base64 ''/w=='' = [0xFF]"
    by (simp add: Buffer_from_base64_def base64_value_def List.map_filter_def)
  show "GET_read \<lparr>fault = (\<lambda>c. None), page_size = 0, now = 9\<rparr>
         [(''/f.chunk0'', Text [65, 65, 65, 65]),
          (''/f.__meta__'', MetaRecord \<lparr>mode = 33188, uid = 1000, gid = 1000, size_bytes = 4,
             atime = 5, mtime = 5, ctime = 5, num_chunks = Some 1\<rparr>)]
        \<lparr>path = ''/f'', offsetStr = Num 0, sizeStr = Num 4, apiKey = ''key'', apiUrl = ''url'',
         body = []\<rparr>
      = Succeeded 200 [65, 65, 65, 65]"
    by (simp add: GET_read_def read_file_def getMetadata_read_def hpkv_get_record_def
      METADATA_SUFFIX_def with_num_chunks_def isDirectory_def S_IFMT_def S_IFDIR_def
      MAX_CHUNK_SIZE_def Let_def read_chunks.simps[of _ _ _ _ _ _ 0 0]
      getChunk_read_def CHUNK_SUFFIX_def decimal_0 substring_def utf8_bytes_def)
  show "POST \<lparr>fault = (\<lambda>c. None), page_size = 0, now = 9\<rparr>
         [(''/f.chunk0'', Text [65, 65, 65, 65]),
          (''/f.__meta__'', MetaRecord \<lparr>mode = 33188, uid = 1000, gid = 1000, size_bytes = 4,
             atime = 5, mtime = 5, ctime = 5, num_chunks = Some 1\<rparr>)]
        \<lparr>path = ''/f'', offsetStr = Num 1, sizeStr = Absent, apiKey = ''key'', apiUrl = ''url'',
         body = ''/w==''\<rparr>
      = (Succeeded 200 1,
         [(''/f.chunk0'', Text [65, 0xFFFD, 65, 65]),
          (''/f.__meta__'', MetaRecord \<lparr>mode = 33188, uid = 1000, gid = 1000, size_bytes = 4,
             atime = 9, mtime = 9, ctime = 5, num_chunks = Some 1\<rparr>)])"
    by (simp add: POST_def b write_file_def getMetadata_def hpkv_get_record_def
      METADATA_SUFFIX_def MAX_CHUNK_SIZE_def Let_def with_num_chunks_def
      isDirectory_def S_IFMT_def S_IFDIR_def
      write_chunks.simps[of _ _ _ _ _ 0] write_chunks.simps[of _ _ _ _ _ "Suc 0"]
      getChunk_def CHUNK_SUFFIX_def decimal_0 Buffer_alloc_def newChunk_of_def Buffer_copy_def
      Buffer_from_utf8_def utf8_bytes_def
      Buffer_toString_utf8_def utf8_start_def
      writeChunk_def hpkv_post_record_def writeMetadata_def DEFAULT_FILE_MODE_def ceil_chunks_div)
  show "GET_read \<lparr>fault = (\<lambda>c. None), page_size = 0, now = 9\<rparr>
         [(''/f.chunk0'', Text [65, 0xFFFD, 65, 65]),
          (''/f.__meta__'', MetaRecord \<lparr>mode = 33188, uid = 1000, gid = 1000, size_bytes = 4,
             atime = 9, mtime = 9, ctime = 5, num_chunks = Some 1\<rparr>)]
        \<lparr>path = ''/f'', offsetStr = Num 0, sizeStr = Num 4, apiKey = ''key'', apiUrl = ''url'',
         body = []\<rparr>
      = Succeeded 200 [65, 0xEF, 0xBF, 0xBD, 65, 65]"
    by (simp add: GET_read_def read_file_def getMetadata_read_def hpkv_get_record_def
      METADATA_SUFFIX_def with_num_chunks_def isDirectory_def S_IFMT_def S_IFDIR_def
      MAX_CHUNK_SIZE_def Let_def read_chunks.simps[of _ _ _ _ _ _ 0 0]
      getChunk_read_def CHUNK_SUFFIX_def decimal_0 substring_def utf8_bytes_def)
qed

text \<open>The amended statement at the write of the spec's example: a file of 2 * MAX_CHUNK_SIZE
  bytes \<open>A\<close>, and the three bytes \<open>XYZ\<close> written at offset MAX_CHUNK_SIZE - 1, across the
  boundary of chunks 0 and 1.\<close>

theorem C3_write_frame_witness:
  "\<exists>kv'. POST \<lparr>fault = (\<lambda>c. None), page_size = 0, now = 9\<rparr>
            [(''/f.__meta__'', MetaRecord \<lparr>mode = 33188, uid = 1000, gid = 1000,
                size_bytes = 6000, atime = 5, mtime = 5, ctime = 5, num_chunks = Some 2\<rparr>),
             (''/f.chunk0'', Text (replicate 3000 65)),
             (''/f.chunk1'', Text (replicate 3000 65))]
            \<lparr>path = ''/f'', offsetStr = Num 2999, sizeStr = Absent, apiKey = ''key'',
             apiUrl = ''url'', body = ''WFla''\<rparr>
          = (Succeeded 200 3, kv')
        \<and> GET_read \<lparr>fault = (\<lambda>c. None), page_size = 0, now = 9\<rparr> kv'
            \<lparr>path = ''/f'', offsetStr = Num 0, sizeStr = Num 6000, apiKey = ''key'',
             apiUrl = ''url'', body = []\<rparr>
          = Succeeded 200 (replicate 2999 65 @ [88, 89, 90] @ replicate 2998 65)"
proof -
  let ?e = "\<lparr>fault = (\<lambda>c. None), page_size = 0, now = 9\<rparr>"
  let ?kv = "[(''/f.__meta__'', MetaRecord \<lparr>mode = 33188, uid = 1000, gid = 1000,
                size_bytes = 6000, atime = 5, mtime = 5, ctime = 5, num_chunks = Some 2\<rparr>),
             (''/f.chunk0'', Text (replicate 3000 65)),
             (''/f.chunk1'', Text (replicate 3000 65))]"
  let ?W = "\<lparr>path = ''/f'', offsetStr = Num 2999, sizeStr = Absent, apiKey = ''key'',
             apiUrl = ''url'', body = ''WFla''\<rparr>"
  let ?D = "[88, 89, 90] :: byte list"
  let ?F = "replicate 6000 (65 :: byte)"
  have f: "\<forall>c. fault ?e c = None" by simp
  have ne: "?D \<noteq> []" by simp
  have off: "2999 \<le> length ?F" by simp
  have p: "''/f'' \<noteq> []" by simp
  have k: "''key'' \<noteq> []" and u: "''url'' \<noteq> []" by simp_all
  have sz: "(0 :: nat) < 6000" by simp
  note t = C3_write_frame[OF holds_two_chunks base64_WFla ascii_XYZ ne off
      no_fault_no_false_404[OF f] p f k u sz, of Absent "''key''" "''url''" 0 "[]"]
  have ow: "take 6000 (drop 0 (overwrite 2999 ?D ?F))
      = replicate 2999 65 @ [88, 89, 90] @ replicate 2998 65"
    by (simp add: overwrite_def)
  let ?R = "\<lparr>path = ''/f'', offsetStr = Num 0, sizeStr = Num 6000, apiKey = ''key'',
             apiUrl = ''url'', body = []\<rparr>"
  have rd: "\<forall>st w kv'. POST ?e ?kv ?W = (Succeeded st w, kv') \<longrightarrow>
      GET_read ?e kv' ?R = Succeeded 200 (replicate 2999 65 @ [88, 89, 90] @ replicate 2998 65)"
    using t ow by simp
  have ex: "\<exists>kv'. POST ?e ?kv ?W = (Succeeded 200 3, kv')"
    using t by (simp add: numeral_3_eq_3)
  from ex rd show ?thesis by blast
qed

end
